theory Spec2Isabelle
  imports Main "HOL-Library.Word" "HOL-Library.AList" "HOL-Library.List_Lexorder"
    "HOL-Library.Char_ord"
begin

unbundle bit_operations_syntax

chapter \<open>The embedding\<close>

section \<open>Client argument encoding: \<open>hexencode\<close> (libkleopatraclient/core/command.cpp)\<close>

text \<open>
  A \<open>std::string\<close> is a sequence of bytes; a byte is a \<^typ>\<open>char\<close> and
  \<open>byte_val\<close> reads it as the \<open>unsigned char\<close> that the switch of the source inspects.
\<close>

definition hex :: string where
  "hex = ''0123456789ABCDEF''"

definition byte_val :: "char \<Rightarrow> nat" where
  "byte_val ch = of_char ch"

text \<open>
  The characters with a \<open>case\<close> label of their own in the switch, besides the space:
  \<open>" # $ % ' + =\<close>.
\<close>

definition shell_special :: "char set" where
  "shell_special = {CHR 0x22, CHR ''#'', CHR ''$'', CHR ''%'', CHR 0x27, CHR ''+'', CHR ''=''}"

text \<open>
  One round of the loop body of \<open>hexencode\<close>.  The \<open>case\<close> labels of the switch are
  tried first; every other byte reaches \<open>default\<close>, which keeps the byte when it lies in
  \<open>'!'..'~'\<close> or above \<open>0xA0\<close> and otherwise falls through into the \<open>case ' '\<close>
  branch, which appends \<open>'+'\<close>.
\<close>

definition hexencode_char :: "char \<Rightarrow> string" where
  "hexencode_char ch =
     (if ch = CHR '' '' then ''+''
      else if ch \<in> shell_special
      then [CHR ''%'', hex ! drop_bit 4 (byte_val ch AND 0xF0), hex ! (byte_val ch AND 0x0F)]
      else if (byte_val (CHR ''!'') \<le> byte_val ch \<and> byte_val ch \<le> byte_val (CHR ''~''))
               \<or> byte_val ch > 0xA0
      then [ch]
      else ''+'')"

fun hexencode :: "string \<Rightarrow> string" where
  "hexencode [] = []"
| "hexencode (ch # rest) = hexencode_char ch @ hexencode rest"

text \<open>
  Modelled from the spec: the server-side decoder of the wire encoding is not among the
  sources (the client file only carries a copy of the encoder).  The specification
  describes it as the shared percent/plus decoding: \<open>'+'\<close> decodes to a space,
  \<open>%XX\<close> decodes to the byte with hexadecimal value \<open>XX\<close>, every other byte is literal.
  A \<open>%\<close> that is not followed by two hexadecimal digits is an error (\<open>None\<close>).
\<close>

definition unhex :: "char \<Rightarrow> nat option" where
  "unhex c =
     (let n = byte_val c in
      if byte_val (CHR ''0'') \<le> n \<and> n \<le> byte_val (CHR ''9'')
      then Some (n - byte_val (CHR ''0''))
      else if byte_val (CHR ''A'') \<le> n \<and> n \<le> byte_val (CHR ''F'')
      then Some (n - byte_val (CHR ''A'') + 10)
      else if byte_val (CHR ''a'') \<le> n \<and> n \<le> byte_val (CHR ''f'')
      then Some (n - byte_val (CHR ''a'') + 10)
      else None)"

fun hexdecode :: "string \<Rightarrow> string option" where
  "hexdecode [] = Some []"
| "hexdecode (c # rest) =
     (if c = CHR ''%'' then
        (case rest of
           h # l # rest' \<Rightarrow>
             (case (unhex h, unhex l) of
                (Some a, Some b) \<Rightarrow> map_option ((#) (char_of (16 * a + b))) (hexdecode rest')
              | _ \<Rightarrow> None)
         | _ \<Rightarrow> None)
      else if c = CHR ''+'' then map_option ((#) (CHR '' '')) (hexdecode rest)
      else map_option ((#) c) (hexdecode rest))"

text \<open>
  The bytes the encoder treats injectively: the space, the printable ASCII range
  \<open>'!'..'~'\<close>, and everything above \<open>0xA0\<close>.
\<close>

definition wire_safe :: "char \<Rightarrow> bool" where
  "wire_safe ch \<longleftrightarrow> (0x20 \<le> byte_val ch \<and> byte_val ch \<le> 0x7E) \<or> byte_val ch > 0xA0"

text \<open>The encoding of one byte in the words of the (amended) specification.\<close>

definition wire_encoding :: "char \<Rightarrow> string" where
  "wire_encoding ch =
     (if ch = CHR '' '' then ''+''
      else if ch \<in> shell_special
      then [CHR ''%'', hex ! (byte_val ch div 16), hex ! (byte_val ch mod 16)]
      else [ch])"

section \<open>The client command object (libkleopatraclient/core/command.cpp)\<close>

subsection \<open>Data\<close>

text \<open>
  A \<open>QVariant\<close> is either invalid (the default-constructed \<open>QVariant()\<close>) or holds a
  value, of which the transport only ever uses the \<open>toString()\<close> rendering.
\<close>

datatype qvariant = InvalidVariant | Variant string

text \<open>\<open>Command::Private::Option\<close>, initialised in the source as \<open>{ value, hasValue, isCritical }\<close>.\<close>

record option_entry =
  opt_value :: qvariant
  hasValue :: bool
  isCritical :: bool

text \<open>
  A \<open>std::map<std::string, T>\<close> is the sequence of its entries in ascending key order
  (the order its iterators visit), each key at most once.  \<open>std::string\<close> keys compare
  byte-wise, which is the lexicographic order on \<^typ>\<open>string\<close>.
\<close>

type_synonym 'v std_map = "(string \<times> 'v) list"

definition map_find :: "'v std_map \<Rightarrow> string \<Rightarrow> 'v option" where
  "map_find m k = map_of m k"

definition map_assign :: "string \<Rightarrow> 'v \<Rightarrow> 'v std_map \<Rightarrow> 'v std_map" where
  "map_assign k v m =
     (if k \<in> fst ` set m then AList.update k v m else insort_key fst (k, v) m)"

definition map_erase :: "string \<Rightarrow> 'v std_map \<Rightarrow> 'v std_map" where
  "map_erase k m = AList.delete k m"

record Inputs =
  parentWId :: nat
  options :: "option_entry std_map"
  filePaths :: "string list"
  recipients :: "string list"
  senders :: "string list"
  inquireData :: "string std_map"
  command :: string
  areRecipientsInformative :: bool
  areSendersInformative :: bool

record Outputs =
  errorString :: string
  canceled :: bool
  data :: string
  serverPid :: int
  serverLocation :: string

text \<open>The state of a \<open>Command\<close>: the two structures its \<open>Private\<close> object keeps under the mutex.\<close>

record Command =
  inputs :: Inputs
  outputs :: Outputs

text \<open>
  A \<open>const char *name\<close> argument: \<open>None\<close> is the null pointer, \<open>Some s\<close> points to the
  NUL-terminated string \<open>s\<close>.  The guard \<open>!name || !*name\<close> of the option accessors:
\<close>

definition null_or_empty :: "string option \<Rightarrow> bool" where
  "null_or_empty name = (case name of None \<Rightarrow> True | Some s \<Rightarrow> s = [])"

subsection \<open>The option accessors\<close>

definition setOptionValue :: "string option \<Rightarrow> qvariant \<Rightarrow> bool \<Rightarrow> Command \<Rightarrow> Command" where
  "setOptionValue name val critical c =
     (case name of
        None \<Rightarrow> c
      | Some n \<Rightarrow>
          if n = [] then c
          else c\<lparr>inputs := (inputs c)\<lparr>options :=
                 map_assign n \<lparr>opt_value = val, hasValue = True, isCritical = critical\<rparr>
                   (options (inputs c))\<rparr>\<rparr>)"

definition optionValue :: "string option \<Rightarrow> Command \<Rightarrow> qvariant" where
  "optionValue name c =
     (case name of
        None \<Rightarrow> InvalidVariant
      | Some n \<Rightarrow>
          if n = [] then InvalidVariant
          else (case map_find (options (inputs c)) n of
                  None \<Rightarrow> InvalidVariant
                | Some e \<Rightarrow> opt_value e))"

definition unsetOption :: "string option \<Rightarrow> Command \<Rightarrow> Command" where
  "unsetOption name c =
     (case name of
        None \<Rightarrow> c
      | Some n \<Rightarrow>
          if n = [] then c
          else c\<lparr>inputs := (inputs c)\<lparr>options := map_erase n (options (inputs c))\<rparr>\<rparr>)"

definition isOptionSet :: "string option \<Rightarrow> Command \<Rightarrow> bool" where
  "isOptionSet name c =
     (case name of
        None \<Rightarrow> False
      | Some n \<Rightarrow> if n = [] then False else map_find (options (inputs c)) n \<noteq> None)"

definition isOptionCritical :: "string option \<Rightarrow> Command \<Rightarrow> bool" where
  "isOptionCritical name c =
     (case name of
        None \<Rightarrow> False
      | Some n \<Rightarrow>
          if n = [] then False
          else (case map_find (options (inputs c)) n of
                  None \<Rightarrow> False
                | Some e \<Rightarrow> isCritical e))"

text \<open>\<open>setOption\<close> first removes an entry of that name through the public accessors.\<close>

definition setOption :: "string option \<Rightarrow> bool \<Rightarrow> Command \<Rightarrow> Command" where
  "setOption name critical c =
     (case name of
        None \<Rightarrow> c
      | Some n \<Rightarrow>
          if n = [] then c
          else
            let c1 = (if isOptionSet name c then unsetOption name c else c)
            in c1\<lparr>inputs := (inputs c1)\<lparr>options :=
                 map_assign n \<lparr>opt_value = InvalidVariant, hasValue = False, isCritical = critical\<rparr>
                   (options (inputs c1))\<rparr>\<rparr>)"

subsection \<open>The exchange with the server (\<open>Command::Private::run\<close>, with \<open>HAVE_ASSUAN2\<close>)\<close>

text \<open>
  A \<open>gpg_error_t\<close> is an unsigned 32-bit value, \<open>0\<close> for success; \<open>gpg_err_code\<close> masks
  its low 16 bits and \<open>GPG_ERR_CANCELED\<close> is code 99 (libgpg-error).
\<close>

type_synonym gpg_error = "32 word"

definition GPG_ERR_CANCELED :: gpg_error where
  "GPG_ERR_CANCELED = 99"

definition gpg_err_code :: "gpg_error \<Rightarrow> gpg_error" where
  "gpg_err_code err = err AND 0xFFFF"

text \<open>
  What \<open>assuan_transact\<close> gets from the peer for one command line: the final status, the
  data lines (each is passed to the data callback) and the names the peer inquires
  (each is passed to the inquire callback).
\<close>

record response =
  status :: gpg_error
  payload :: "string list"
  inquires :: "string list"

text \<open>
  What lies outside the program: the default socket name, the results of \<open>assuan_new\<close>,
  of each \<open>assuan_socket_connect\<close> (numbered from 0) and of \<open>start_uiserver\<close> (the empty
  string when the server process was started), the peer (its response to a line, given
  the lines sent before), \<open>gpg_strerror_r\<close> and \<open>QByteArray::toLongLong\<close>.
\<close>

record run_env =
  default_socket_name :: string
  assuan_new_status :: gpg_error
  connect_status :: "nat \<Rightarrow> gpg_error"
  start_uiserver_result :: string
  peer :: "string list \<Rightarrow> string \<Rightarrow> response"
  to_error_string :: "gpg_error \<Rightarrow> string"
  toLongLong :: "string \<Rightarrow> int"

text \<open>
  The local variables of \<open>run\<close> that change: \<open>out\<close>, and on the connection the lines sent
  so far, each with the status it got, and the data sent in answer to inquiries.
\<close>

record exchange =
  out :: Outputs
  transcript :: "(string \<times> gpg_error) list"
  inquire_sent :: "string list"

text \<open>\<open>Outputs out;\<close> as default-constructed.\<close>

definition new_Outputs :: Outputs where
  "new_Outputs = \<lparr>errorString = [], canceled = False, data = [], serverPid = 0,
                   serverLocation = []\<rparr>"

text \<open>
  \<open>my_assuan_transact\<close>: the line goes out, the peer's response comes back.  The
  callbacks are applied by the callers below.
\<close>

definition transact :: "run_env \<Rightarrow> string \<Rightarrow> exchange \<Rightarrow> response \<times> exchange" where
  "transact env line x =
     (let resp = peer env (map fst (transcript x)) line
      in (resp, x\<lparr>transcript := transcript x @ [(line, status resp)]\<rparr>))"

text \<open>\<open>value.toString()\<close> of a \<open>QVariant\<close>; the invalid one gives the empty string.\<close>

definition qvariant_toString :: "qvariant \<Rightarrow> string" where
  "qvariant_toString v = (case v of InvalidVariant \<Rightarrow> [] | Variant s \<Rightarrow> s)"

definition send_option :: "run_env \<Rightarrow> string \<Rightarrow> qvariant \<Rightarrow> exchange \<Rightarrow> gpg_error \<times> exchange" where
  "send_option env name val x =
     (let line = ''OPTION '' @ name @
                   (case val of InvalidVariant \<Rightarrow> [] | Variant s \<Rightarrow> ''='' @ s)
      in case transact env line x of (resp, x') \<Rightarrow> (status resp, x'))"

definition send_file :: "run_env \<Rightarrow> string \<Rightarrow> exchange \<Rightarrow> gpg_error \<times> exchange" where
  "send_file env f x =
     (case transact env (''FILE '' @ hexencode f) x of (resp, x') \<Rightarrow> (status resp, x'))"

definition send_recipient :: "run_env \<Rightarrow> string \<Rightarrow> bool \<Rightarrow> exchange \<Rightarrow> gpg_error \<times> exchange" where
  "send_recipient env recipient info x =
     (case transact env
             (''RECIPIENT '' @ (if info then ''--info '' else []) @ ''--'' @ hexencode recipient) x
      of (resp, x') \<Rightarrow> (status resp, x'))"

definition send_sender :: "run_env \<Rightarrow> string \<Rightarrow> bool \<Rightarrow> exchange \<Rightarrow> gpg_error \<times> exchange" where
  "send_sender env sender info x =
     (case transact env
             (''SENDER '' @ (if info then ''--info '' else []) @ ''--'' @ hexencode sender) x
      of (resp, x') \<Rightarrow> (status resp, x'))"

text \<open>\<open>out.errorString = ...; goto leave;\<close>\<close>

definition fail_with :: "string \<Rightarrow> exchange \<Rightarrow> exchange" where
  "fail_with msg x = x\<lparr>out := (out x)\<lparr>errorString := msg\<rparr>\<rparr>"

text \<open>
  The four loops.  The \<open>bool\<close> says whether the loop ended in \<open>goto leave\<close>.  In the
  option loop the value sent is \<open>hasValue ? value.toString() : QVariant()\<close>, and only a
  critical option that fails ends the exchange.  (\<open>i18n\<close> is modelled as the substitution
  of \<open>%1\<close>, \<open>%2\<close> in the untranslated text.)
\<close>

fun send_options :: "run_env \<Rightarrow> (string \<times> option_entry) list \<Rightarrow> exchange \<Rightarrow> bool \<times> exchange" where
  "send_options env [] x = (False, x)"
| "send_options env ((name, opt) # rest) x =
     (case send_option env name
             (if hasValue opt then Variant (qvariant_toString (opt_value opt)) else InvalidVariant) x
      of (err, x') \<Rightarrow>
        if err \<noteq> 0 \<and> isCritical opt
        then (True, fail_with (''Failed to send critical option '' @ name @ '': '' @ to_error_string env err) x')
        else send_options env rest x')"

fun send_files :: "run_env \<Rightarrow> string list \<Rightarrow> exchange \<Rightarrow> bool \<times> exchange" where
  "send_files env [] x = (False, x)"
| "send_files env (filePath # rest) x =
     (case send_file env filePath x of (err, x') \<Rightarrow>
        if err \<noteq> 0
        then (True, fail_with (''Failed to send file path '' @ filePath @ '': '' @ to_error_string env err) x')
        else send_files env rest x')"

fun send_senders :: "run_env \<Rightarrow> bool \<Rightarrow> string list \<Rightarrow> exchange \<Rightarrow> bool \<times> exchange" where
  "send_senders env info [] x = (False, x)"
| "send_senders env info (sender # rest) x =
     (case send_sender env sender info x of (err, x') \<Rightarrow>
        if err \<noteq> 0
        then (True, fail_with (''Failed to send sender '' @ sender @ '': '' @ to_error_string env err) x')
        else send_senders env info rest x')"

fun send_recipients :: "run_env \<Rightarrow> bool \<Rightarrow> string list \<Rightarrow> exchange \<Rightarrow> bool \<times> exchange" where
  "send_recipients env info [] x = (False, x)"
| "send_recipients env info (recipient # rest) x =
     (case send_recipient env recipient info x of (err, x') \<Rightarrow>
        if err \<noteq> 0
        then (True, fail_with (''Failed to send recipient '' @ recipient @ '': '' @ to_error_string env err) x')
        else send_recipients env info rest x')"

text \<open>
  The main command: \<open>command_data_cb\<close> appends each data line to \<open>out.data\<close>,
  \<open>command_inquire_cb\<close> answers an inquiry with the data staged under that name, if any.
  A status whose code is \<open>GPG_ERR_CANCELED\<close> sets \<open>out.canceled\<close>; any other error sets the
  error string.
\<close>

definition send_command :: "run_env \<Rightarrow> Inputs \<Rightarrow> exchange \<Rightarrow> exchange" where
  "send_command env ins x =
     (case transact env (command ins) x of (resp, x1) \<Rightarrow>
        let x2 = x1\<lparr>out := (out x1)\<lparr>data := data (out x1) @ concat (payload resp)\<rparr>,
                   inquire_sent := inquire_sent x1 @
                     concat (map (\<lambda>what. case map_find (inquireData ins) what of
                                            None \<Rightarrow> [] | Some v \<Rightarrow> [v]) (inquires resp))\<rparr>
        in if status resp \<noteq> 0 then
             if gpg_err_code (status resp) = GPG_ERR_CANCELED
             then x2\<lparr>out := (out x2)\<lparr>canceled := True\<rparr>\<rparr>
             else fail_with (''Command ('' @ command ins @ '') failed: ''
                               @ to_error_string env (status resp)) x2
           else x2)"

text \<open>\<open>QString::asprintf("%lx", wid)\<close>: lower-case hexadecimal without leading zeros.\<close>

function hex_lower :: "nat \<Rightarrow> string" where
  "hex_lower n =
     (if n < 16 then [''0123456789abcdef'' ! n]
      else hex_lower (n div 16) @ [''0123456789abcdef'' ! (n mod 16)])"
  by pat_completeness auto
termination
  by (relation "measure id") auto

declare hex_lower.simps [simp del]

text \<open>
  The steps after the connection is made, from \<open>GETINFO pid\<close> on.  \<open>getinfo_pid_cb\<close>
  overwrites \<open>out.serverPid\<close> with each data line parsed as a number.
\<close>

definition converse :: "run_env \<Rightarrow> Inputs \<Rightarrow> exchange \<Rightarrow> exchange" where
  "converse env ins x0 =
     (case transact env ''GETINFO pid'' (x0\<lparr>out := (out x0)\<lparr>serverPid := -1\<rparr>\<rparr>) of (resp, x1) \<Rightarrow>
        let x2 = x1\<lparr>out := (out x1)\<lparr>serverPid :=
                     fold (\<lambda>line pid. toLongLong env line) (payload resp) (serverPid (out x1))\<rparr>\<rparr>
        in if status resp \<noteq> 0 \<or> serverPid (out x2) \<le> 0
           then fail_with (''Could not get the process-id of the Kleopatra UI server at ''
                   @ serverLocation (out x2) @ '': '' @ to_error_string env (status resp)) x2
           else if command ins = [] then x2
           else
             let x3 = (if parentWId ins \<noteq> 0
                       then snd (send_option env ''window-id''
                                   (Variant (hex_lower (parentWId ins))) x2)
                       else x2)
             in case send_options env (options ins) x3 of
                  (True, x4) \<Rightarrow> x4
                | (False, x4) \<Rightarrow>
                    (case send_files env (filePaths ins) x4 of
                       (True, x5) \<Rightarrow> x5
                     | (False, x5) \<Rightarrow>
                         (case send_senders env (areSendersInformative ins) (senders ins) x5 of
                            (True, x6) \<Rightarrow> x6
                          | (False, x6) \<Rightarrow>
                              (case send_recipients env (areRecipientsInformative ins)
                                      (recipients ins) x6 of
                                 (True, x7) \<Rightarrow> x7
                               | (False, x7) \<Rightarrow> send_command env ins x7))))"

text \<open>
  \<open>for (int i = 0; err && i < 20; ++i) { msleep(500); err = assuan_socket_connect(...); }\<close>
  with \<open>k\<close> rounds left; the connection attempts are numbered \<open>i + 1\<close>.
\<close>

fun retry_connect :: "run_env \<Rightarrow> nat \<Rightarrow> nat \<Rightarrow> gpg_error \<Rightarrow> gpg_error" where
  "retry_connect env i 0 err = err"
| "retry_connect env i (Suc k) err =
     (if err \<noteq> 0 then retry_connect env (Suc i) k (connect_status env (Suc i)) else err)"

text \<open>
  From \<open>const QString socketName = out.serverLocation\<close> to \<open>leave\<close>: the connection
  is made, with the server started and twenty more attempts if the first one fails, and
  the conversation follows.
\<close>

definition connect_and_converse :: "run_env \<Rightarrow> Inputs \<Rightarrow> exchange \<Rightarrow> exchange" where
  "connect_and_converse env ins x0 =
     (let socketName = serverLocation (out x0) in
      if socketName = [] then fail_with ''Invalid socket name!'' x0
      else if assuan_new_status env \<noteq> 0
      then fail_with (''Could not allocate resources to connect to Kleopatra UI server at ''
              @ socketName @ '': '' @ to_error_string env (assuan_new_status env)) x0
      else
        let err0 = connect_status env 0 in
        if err0 \<noteq> 0 \<and> start_uiserver_result env \<noteq> []
        then fail_with (start_uiserver_result env) x0
        else
          let err = (if err0 \<noteq> 0 then retry_connect env 0 20 err0 else err0) in
          if err \<noteq> 0
          then fail_with (''Could not connect to Kleopatra UI server at ''
                  @ socketName @ '': '' @ to_error_string env err) x0
          else converse env ins x0)"

text \<open>
  \<open>Command::Private::run\<close>: the command with the outputs copied back at \<open>leave\<close>, and the
  record of the exchange.  \<open>out\<close> starts default-constructed (the stored outputs are
  overwritten with it first), so the server location is always the default one.
\<close>

definition run :: "run_env \<Rightarrow> Command \<Rightarrow> Command \<times> exchange" where
  "run env c =
     (let ins = inputs c;
          out0 = new_Outputs\<lparr>canceled := False\<rparr>;
          out1 = (if serverLocation out0 = []
                  then out0\<lparr>serverLocation := default_socket_name env\<rparr> else out0);
          x = connect_and_converse env ins \<lparr>out = out1, transcript = [], inquire_sent = []\<rparr>
      in (c\<lparr>outputs := out x\<rparr>, x))"

text \<open>\<open>Command::error\<close> and \<open>Command::wasCanceled\<close>.\<close>

definition error_reported :: "Command \<Rightarrow> bool" where
  "error_reported c \<longleftrightarrow> errorString (outputs c) \<noteq> []"

definition wasCanceled :: "Command \<Rightarrow> bool" where
  "wasCanceled c \<longleftrightarrow> canceled (outputs c)"

text \<open>
  The three results a caller can read back: success, canceled, error with a string.
\<close>

definition succeeded :: "Outputs \<Rightarrow> bool" where
  "succeeded o' \<longleftrightarrow> errorString o' = [] \<and> \<not> canceled o'"

definition ended_canceled :: "Outputs \<Rightarrow> bool" where
  "ended_canceled o' \<longleftrightarrow> errorString o' = [] \<and> canceled o'"

definition ended_in_error :: "Outputs \<Rightarrow> bool" where
  "ended_in_error o' \<longleftrightarrow> errorString o' \<noteq> [] \<and> \<not> canceled o'"

text \<open>
  The last line sent was refused, or was \<open>GETINFO pid\<close> (which also fails on a
  process id that is not positive): nothing was sent after the step that failed.
\<close>

definition stopped_at_failure :: "exchange \<Rightarrow> bool" where
  "stopped_at_failure x \<longleftrightarrow>
     transcript x = [] \<or> snd (last (transcript x)) \<noteq> 0
     \<or> fst (last (transcript x)) = ''GETINFO pid''"

text \<open>
  How an exchange can end, as C5 (amended) has it: with success; or canceled or in
  error, and then stopped at the failure; canceled only by a \<open>GPG_ERR_CANCELED\<close> answer
  to the main command.
\<close>

definition settled :: "Inputs \<Rightarrow> exchange \<Rightarrow> bool" where
  "settled ins x \<longleftrightarrow>
     ((succeeded (out x) \<and> \<not> ended_canceled (out x) \<and> \<not> ended_in_error (out x))
      \<or> (\<not> succeeded (out x) \<and> ended_canceled (out x) \<and> \<not> ended_in_error (out x)
          \<and> stopped_at_failure x)
      \<or> (\<not> succeeded (out x) \<and> \<not> ended_canceled (out x) \<and> ended_in_error (out x)
          \<and> stopped_at_failure x))
     \<and> (canceled (out x) \<longrightarrow>
           transcript x \<noteq> [] \<and> fst (last (transcript x)) = command ins
           \<and> snd (last (transcript x)) \<noteq> 0
           \<and> gpg_err_code (snd (last (transcript x))) = GPG_ERR_CANCELED)"

text \<open>
  What each of the four loops guarantees: it leaves \<open>out\<close> alone unless it fails, and
  then it has set an error string, not the cancellation flag, and stopped at the line
  that was refused.
\<close>

definition loop_ok :: "exchange \<Rightarrow> bool \<times> exchange \<Rightarrow> bool" where
  "loop_ok x r \<longleftrightarrow>
     (if fst r then ended_in_error (out (snd r)) \<and> transcript (snd r) \<noteq> []
                    \<and> snd (last (transcript (snd r))) \<noteq> 0
      else out (snd r) = out x)"

subsection \<open>The exchange as the specification words it\<close>

text \<open>
  The specification lists the steps of an exchange ``in strict order; first failure
  aborts and records an error, skipping the rest'': the connection is made, the peer's
  process id is queried, then each option is sent (``a failed critical option aborts the
  whole exchange, a failed non-critical option is logged and ignored''), each file path,
  sender and recipient (``any failure here is fatal''), and the main command, whose
  ``canceled'' response ``sets a cancellation flag instead'' of an error string.  The
  definitions of this subsection follow these words; they are compared with \<open>run\<close>,
  which follows the source.
\<close>

text \<open>
  What a refusal of a line means for the exchange, and how an exchange ends.
\<close>

datatype severity = Ignored | Aborting | MainCommand

datatype ending = Completed | Cancelled | Aborted

text \<open>The lines of the wire protocol, one for each thing sent.\<close>

definition option_line :: "string \<Rightarrow> qvariant \<Rightarrow> string" where
  "option_line name val =
     ''OPTION '' @ name @ (case val of InvalidVariant \<Rightarrow> [] | Variant s \<Rightarrow> ''='' @ s)"

definition option_step :: "string \<times> option_entry \<Rightarrow> string \<times> severity" where
  "option_step entry =
     (option_line (fst entry)
        (if hasValue (snd entry) then Variant (qvariant_toString (opt_value (snd entry)))
         else InvalidVariant),
      if isCritical (snd entry) then Aborting else Ignored)"

definition file_step :: "string \<Rightarrow> string \<times> severity" where
  "file_step filePath = (''FILE '' @ hexencode filePath, Aborting)"

definition sender_step :: "bool \<Rightarrow> string \<Rightarrow> string \<times> severity" where
  "sender_step info sender =
     (''SENDER '' @ (if info then ''--info '' else []) @ ''--'' @ hexencode sender, Aborting)"

definition recipient_step :: "bool \<Rightarrow> string \<Rightarrow> string \<times> severity" where
  "recipient_step info recipient =
     (''RECIPIENT '' @ (if info then ''--info '' else []) @ ''--'' @ hexencode recipient,
      Aborting)"

text \<open>
  The steps that follow the query of the process id, in their order: the window id
  (never fatal), the options, the file paths, the senders, the recipients, the main
  command.
\<close>

definition protocol_steps :: "Inputs \<Rightarrow> (string \<times> severity) list" where
  "protocol_steps ins =
     (if parentWId ins \<noteq> 0
      then [(option_line ''window-id'' (Variant (hex_lower (parentWId ins))), Ignored)]
      else [])
     @ map option_step (options ins)
     @ map file_step (filePaths ins)
     @ map (sender_step (areSendersInformative ins)) (senders ins)
     @ map (recipient_step (areRecipientsInformative ins)) (recipients ins)
     @ [(command ins, MainCommand)]"

text \<open>
  The steps are taken one after the other, \<open>sent\<close> being the lines sent so far with the
  status each one got.  An accepted line and a refused line that is \<open>Ignored\<close> are
  followed by the next step; any other refusal is the end, \<open>Cancelled\<close> when it is the
  main command refused with the code \<open>GPG_ERR_CANCELED\<close>, \<open>Aborted\<close> otherwise.
\<close>

fun expected_exchange :: "run_env \<Rightarrow> (string \<times> severity) list \<Rightarrow> (string \<times> gpg_error) list \<Rightarrow>
    ending \<times> (string \<times> gpg_error) list" where
  "expected_exchange env [] sent = (Completed, sent)"
| "expected_exchange env ((line, sev) # rest) sent =
     (let st = status (peer env (map fst sent) line)
      in if st = 0 \<or> sev = Ignored then expected_exchange env rest (sent @ [(line, st)])
         else if sev = MainCommand \<and> gpg_err_code st = GPG_ERR_CANCELED
         then (Cancelled, sent @ [(line, st)])
         else (Aborted, sent @ [(line, st)]))"

text \<open>
  Steps (1) and (2): there is a socket name, the connection object can be allocated,
  and the connection is made at once, or the server process can be started and one of
  the twenty further attempts succeeds.
\<close>

definition connection_made :: "run_env \<Rightarrow> bool" where
  "connection_made env \<longleftrightarrow>
     default_socket_name env \<noteq> [] \<and> assuan_new_status env = 0
     \<and> (connect_status env 0 = 0
        \<or> (start_uiserver_result env = [] \<and> (\<exists>i \<in> {1..20}. connect_status env i = 0)))"

text \<open>
  Step (3): the process id the peer reports on the first line of a connection, each
  data line being read as a number; \<open>-1\<close> when it sends none.
\<close>

definition reported_pid :: "run_env \<Rightarrow> int" where
  "reported_pid env =
     fold (\<lambda>line pid. toLongLong env line) (payload (peer env [] ''GETINFO pid'')) (-1)"

text \<open>
  The whole exchange: how it ends and what was sent.  Without a main command it ends
  after the process id.
\<close>

definition expected_run :: "run_env \<Rightarrow> Inputs \<Rightarrow> ending \<times> (string \<times> gpg_error) list" where
  "expected_run env ins =
     (if \<not> connection_made env then (Aborted, [])
      else
        let st = status (peer env [] ''GETINFO pid'') in
        if st \<noteq> 0 \<or> reported_pid env \<le> 0 then (Aborted, [(''GETINFO pid'', st)])
        else if command ins = [] then (Completed, [(''GETINFO pid'', st)])
        else expected_exchange env (protocol_steps ins) [(''GETINFO pid'', st)])"

text \<open>
  The ending a caller reads from the outputs: the cancellation flag
  (\<open>Command::wasCanceled\<close>), else the error string (\<open>Command::error\<close>).
\<close>

definition ending_of :: "Outputs \<Rightarrow> ending" where
  "ending_of o' =
     (if canceled o' then Cancelled else if errorString o' \<noteq> [] then Aborted else Completed)"

section \<open>The pipe device (utils/kdpipeiodevice.cpp)\<close>

subsection \<open>Reader and Writer objects\<close>

definition BUFFER_SIZE :: nat where
  "BUFFER_SIZE = 4096"

text \<open>
  \<open>sizeof buffer\<close> inside \<open>Reader\<close>, whose array is \<open>char buffer[BUFFER_SIZE + 1]\<close>
  (one byte is kept free to tell the full buffer from the empty one).
\<close>

definition sizeof_buffer :: nat where
  "sizeof_buffer = BUFFER_SIZE + 1"

text \<open>What \<open>QThread::isRunning\<close> and \<open>QThread::isFinished\<close> report.\<close>

datatype thread_state = NotStarted | Running | Finished

text \<open>
  The fields of \<open>Reader\<close>.  \<open>rptr\<close> and \<open>wptr\<close> are \<open>unsigned int\<close>; they are kept
  below \<open>sizeof buffer\<close> by every operation (lemmas \<open>ptrs_ok_*\<close> below), so the
  unsigned arithmetic of the source never wraps and is written on \<^typ>\<open>nat\<close>.
\<close>

record Reader =
  r_fd :: int
  r_handle :: nat
  cancel :: bool
  eof :: bool
  error :: bool
  eofShortCut :: bool
  errorCode :: int
  isReading :: bool
  consumerBlocksOnUs :: bool
  rptr :: nat
  wptr :: nat
  buffer :: string
  r_thread :: thread_state

text \<open>
  The constructor.  The array is not initialised by the source; no operation reads a
  cell before the Reader thread has stored a byte in it, and the model starts it zeroed.
\<close>

definition new_Reader :: "int \<Rightarrow> nat \<Rightarrow> Reader" where
  "new_Reader fd' handle' =
     \<lparr>r_fd = fd', r_handle = handle', cancel = False, eof = False, error = False,
      eofShortCut = False, errorCode = 0, isReading = False, consumerBlocksOnUs = False,
      rptr = 0, wptr = 0, buffer = replicate sizeof_buffer (CHR 0x00),
      r_thread = NotStarted\<rparr>"

definition bytesInBuffer :: "Reader \<Rightarrow> nat" where
  "bytesInBuffer r = (wptr r + sizeof_buffer - rptr r) mod sizeof_buffer"

definition bufferFull :: "Reader \<Rightarrow> bool" where
  "bufferFull r \<longleftrightarrow> bytesInBuffer r = sizeof_buffer - 1"

definition bufferEmpty :: "Reader \<Rightarrow> bool" where
  "bufferEmpty r \<longleftrightarrow> bytesInBuffer r = 0"

text \<open>The fields of \<open>Writer\<close>; its staging slot is \<open>char buffer[BUFFER_SIZE]\<close>.\<close>

record Writer =
  w_fd :: int
  w_handle :: nat
  w_cancel :: bool
  w_error :: bool
  w_errorCode :: int
  numBytesInBuffer :: nat
  w_buffer :: string
  w_thread :: thread_state

definition new_Writer :: "int \<Rightarrow> nat \<Rightarrow> Writer" where
  "new_Writer fd' handle' =
     \<lparr>w_fd = fd', w_handle = handle', w_cancel = False, w_error = False, w_errorCode = 0,
      numBytesInBuffer = 0, w_buffer = replicate BUFFER_SIZE (CHR 0x00),
      w_thread = NotStarted\<rparr>"

definition Writer_bufferEmpty :: "Writer \<Rightarrow> bool" where
  "Writer_bufferEmpty w \<longleftrightarrow> numBytesInBuffer w = 0"

subsection \<open>The device\<close>

text \<open>\<open>QIODevice::OpenMode\<close> is a set of flags in an \<open>int\<close>; the values are Qt's.\<close>

type_synonym OpenMode = "32 word"

definition NotOpen :: OpenMode where "NotOpen = 0x0000"
definition ReadOnly :: OpenMode where "ReadOnly = 0x0001"
definition WriteOnly :: OpenMode where "WriteOnly = 0x0002"
definition ReadWrite :: OpenMode where "ReadWrite = ReadOnly OR WriteOnly"
definition Unbuffered :: OpenMode where "Unbuffered = 0x0020"

text \<open>
  The state of a \<open>KDPipeIODevice\<close>: of its \<open>QIODevice\<close> base the open mode and the bytes
  held by the generic buffering layer, and the fields of \<open>KDPipeIODevice::Private\<close>.
  A \<open>Qt::HANDLE\<close> is an address, \<open>0\<close> being the null handle; a null \<open>Reader *\<close> or
  \<open>Writer *\<close> is \<open>None\<close>.
\<close>

record KDPipeIODevice =
  openMode :: OpenMode
  qbuffer :: string
  fd :: int
  handle :: nat
  reader :: "Reader option"
  writer :: "Writer option"
  triedToStartReader :: bool
  triedToStartWriter :: bool

text \<open>The constructor \<open>KDPipeIODevice(QObject *)\<close> with \<open>Private::Private\<close>.\<close>

definition new_KDPipeIODevice :: KDPipeIODevice where
  "new_KDPipeIODevice =
     \<lparr>openMode = NotOpen, qbuffer = [], fd = -1, handle = 0, reader = None, writer = None,
      triedToStartReader = False, triedToStartWriter = False\<rparr>"

definition isOpen :: "KDPipeIODevice \<Rightarrow> bool" where
  "isOpen d \<longleftrightarrow> openMode d \<noteq> NotOpen"

text \<open>The two compile-time variants of the source (\<open>#ifdef Q_OS_WIN32\<close>).\<close>

datatype platform = Posix | Win32

text \<open>
  \<open>KDPipeIODevice::Private::doOpen\<close>.  The result is the returned \<open>bool\<close> and the device
  afterwards.  (The signal connections made for a new Reader and Writer carry no state.)
  Its descriptor check is \<open>!handle_\<close> on Windows and \<open>fd_ < 0\<close> elsewhere.
\<close>

definition invalid_descriptor :: "platform \<Rightarrow> int \<Rightarrow> nat \<Rightarrow> bool" where
  "invalid_descriptor p fd' handle' = (case p of Win32 \<Rightarrow> handle' = 0 | Posix \<Rightarrow> fd' < 0)"

definition doOpen :: "platform \<Rightarrow> int \<Rightarrow> nat \<Rightarrow> OpenMode \<Rightarrow> KDPipeIODevice \<Rightarrow> bool \<times> KDPipeIODevice" where
  "doOpen p fd' handle' mode' d =
     (if isOpen d then (False, d)
      else if invalid_descriptor p fd' handle' then (False, d)
      else if mode' AND ReadWrite = 0 then (False, d)
      else
        let reader' = (if mode' AND ReadOnly \<noteq> 0 then Some (new_Reader fd' handle') else None);
            writer' = (if mode' AND WriteOnly \<noteq> 0 then Some (new_Writer fd' handle') else None)
        in (True, d\<lparr>fd := fd', handle := handle', reader := reader', writer := writer',
                     openMode := mode' OR Unbuffered\<rparr>))"

text \<open>
  \<open>startReaderThread\<close> and \<open>startWriterThread\<close>: the first call marks the attempt and
  starts a thread that has neither run nor finished.  The \<open>bool\<close> they return (whether
  the thread reported within 1000 ms) is discarded by every caller modelled here.
\<close>

definition startReaderThread :: "KDPipeIODevice \<Rightarrow> KDPipeIODevice" where
  "startReaderThread d =
     (if triedToStartReader d then d
      else
        let d1 = d\<lparr>triedToStartReader := True\<rparr>
        in case reader d1 of
             None \<Rightarrow> d1
           | Some r \<Rightarrow>
               if r_thread r = NotStarted
               then d1\<lparr>reader := Some (r\<lparr>r_thread := Running\<rparr>)\<rparr>
               else d1)"

definition startWriterThread :: "KDPipeIODevice \<Rightarrow> KDPipeIODevice" where
  "startWriterThread d =
     (if triedToStartWriter d then d
      else
        let d1 = d\<lparr>triedToStartWriter := True\<rparr>
        in case writer d1 of
             None \<Rightarrow> d1
           | Some w \<Rightarrow>
               if w_thread w = NotStarted
               then d1\<lparr>writer := Some (w\<lparr>w_thread := Running\<rparr>)\<rparr>
               else d1)"

text \<open>
  \<open>QIODevice::bytesAvailable\<close> of a sequential device is the size of the generic buffer.
  \<open>KDPipeIODevice::bytesAvailable\<close> adds the ring buffer, except on the call that first
  starts the Reader thread.
\<close>

definition QIODevice_bytesAvailable :: "KDPipeIODevice \<Rightarrow> int" where
  "QIODevice_bytesAvailable d = int (length (qbuffer d))"

definition bytesAvailable :: "KDPipeIODevice \<Rightarrow> int \<times> KDPipeIODevice" where
  "bytesAvailable d =
     (let base = QIODevice_bytesAvailable d in
      if \<not> triedToStartReader d then (base, startReaderThread d)
      else case reader d of
             Some r \<Rightarrow> (base + int (bytesInBuffer r), d)
           | None \<Rightarrow> (base, d))"

text \<open>
  A call that does not come back with a value: it dereferences a null \<open>Reader *\<close> or
  \<open>Writer *\<close>, it violates a precondition the source only asserts, or it waits on a
  condition that is never signalled.
\<close>

datatype fault = NullDereference | PreconditionViolated | NeverWoken

subsection \<open>Reading\<close>

text \<open>
  \<open>Reader::readData\<close>: the count returned, the bytes copied to \<open>data\<close>, the Reader
  afterwards.  The copy never crosses the end of the array.
\<close>

definition Reader_readData :: "int \<Rightarrow> Reader \<Rightarrow> int \<times> string \<times> Reader" where
  "Reader_readData maxSize r =
     (let numRead0 = int (if rptr r < wptr r then wptr r - rptr r else sizeof_buffer - rptr r);
          numRead = (if numRead0 > maxSize then maxSize else numRead0)
      in (numRead,
          take (nat numRead) (drop (rptr r) (buffer r)),
          r\<lparr>rptr := (rptr r + nat numRead) mod sizeof_buffer\<rparr>))"

text \<open>
  The tail of \<open>KDPipeIODevice::readData\<close>, from \<open>if (r->bufferEmpty())\<close> on, run with the
  Reader's mutex held.
\<close>

definition readData_locked :: "int \<Rightarrow> Reader \<Rightarrow> KDPipeIODevice \<Rightarrow> int \<times> string \<times> KDPipeIODevice" where
  "readData_locked maxSize r d =
     (if bufferEmpty r
      then ((if eof r then 0 else -1), [], d\<lparr>reader := Some (r\<lparr>eofShortCut := True\<rparr>)\<rparr>)
      else
        case Reader_readData maxSize r of
          (bytesRead, bytes, r') \<Rightarrow> (bytesRead, bytes, d\<lparr>reader := Some r'\<rparr>))"

text \<open>
  \<open>KDPipeIODevice::readData\<close>.  When the buffer is empty and neither \<open>eof\<close> nor \<open>error\<close>
  is set, the caller waits on \<open>bufferNotEmptyCondition\<close> with \<open>consumerBlocksOnUs\<close> set;
  \<open>wake\<close> is what the Reader thread does to the shared state until it signals that
  condition, \<open>None\<close> if it never does.  \<open>consumerBlocksOnUs\<close> gets its old value back
  when the wait is over (\<open>woken\<close>).  (\<open>bytesAvailable()\<close> is evaluated twice in the source, with
  the same result for the caller.)
\<close>

definition woken :: "(Reader \<Rightarrow> Reader) \<Rightarrow> Reader \<Rightarrow> Reader" where
  "woken f r = (f (r\<lparr>consumerBlocksOnUs := True\<rparr>))\<lparr>consumerBlocksOnUs := consumerBlocksOnUs r\<rparr>"

definition readData :: "int \<Rightarrow> (Reader \<Rightarrow> Reader) option \<Rightarrow> KDPipeIODevice \<Rightarrow>
    fault + (int \<times> string \<times> KDPipeIODevice)" where
  "readData maxSize wake d0 =
     (let d = startReaderThread d0 in
      case reader d of
        None \<Rightarrow> Inl NullDereference
      | Some r \<Rightarrow>
          if eofShortCut r then Inr (0, [], d)
          else
            let maxSize1 = (if maxSize < 0 then 0 else maxSize);
                avail = fst (bytesAvailable d);
                maxSize2 = (if avail > 0 then min maxSize1 avail else maxSize1)
            in if bufferEmpty r \<and> \<not> error r \<and> \<not> eof r
               then (case wake of
                       None \<Rightarrow> Inl NeverWoken
                     | Some f \<Rightarrow> Inr (readData_locked maxSize2 (woken f r) d))
               else Inr (readData_locked maxSize2 r d))"

text \<open>
  \<open>QIODevice::atEnd\<close> (Qt): the device is not open, or the generic buffer is empty and
  the virtual \<open>bytesAvailable()\<close> is 0.
\<close>

definition QIODevice_atEnd :: "KDPipeIODevice \<Rightarrow> bool \<times> KDPipeIODevice" where
  "QIODevice_atEnd d =
     (case bytesAvailable d of
        (avail, d1) \<Rightarrow> (openMode d = NotOpen \<or> (qbuffer d = [] \<and> avail = 0), d1))"

definition atEnd :: "KDPipeIODevice \<Rightarrow> fault + (bool \<times> KDPipeIODevice)" where
  "atEnd d0 =
     (case QIODevice_atEnd (startReaderThread d0) of
        (base, d) \<Rightarrow>
          if \<not> base then Inr (False, d)
          else if \<not> isOpen d then Inr (True, d)
          else case reader d of
                 None \<Rightarrow> Inl NullDereference
               | Some r \<Rightarrow>
                   if eofShortCut r then Inr (True, d)
                   else Inr ((error r \<or> eof r) \<and> bufferEmpty r, d))"

subsection \<open>Writing\<close>


text \<open>
  What the Writer thread (\<open>Writer::run\<close>) does to the shared state before it signals
  \<open>bufferEmptyCondition\<close>: the slot has been written out, or a write failed with an
  error code, after which the thread leaves its loop.
\<close>

datatype writer_event = Flushed | WriteFailed int

definition writer_thread :: "writer_event \<Rightarrow> Writer \<Rightarrow> Writer" where
  "writer_thread e w =
     (case e of
        Flushed \<Rightarrow> w\<lparr>numBytesInBuffer := 0\<rparr>
      | WriteFailed code \<Rightarrow>
          w\<lparr>w_errorCode := code, w_error := True, numBytesInBuffer := 0, w_thread := Finished\<rparr>)"

text \<open>
  The loop \<open>while (!w->error && !w->bufferEmpty()) wait\<close> of
  \<open>KDPipeIODevice::writeData\<close>.  Each wake-up is one event of the Writer thread; when
  none is left the caller waits for ever.
\<close>

fun wait_bufferEmpty :: "writer_event list \<Rightarrow> Writer \<Rightarrow> Writer option" where
  "wait_bufferEmpty [] w =
     (if \<not> w_error w \<and> \<not> Writer_bufferEmpty w then None else Some w)"
| "wait_bufferEmpty (e # evs) w =
     (if \<not> w_error w \<and> \<not> Writer_bufferEmpty w
      then wait_bufferEmpty evs (writer_thread e w)
      else Some w)"


subsection \<open>The Reader thread (\<open>Reader::run\<close>, POSIX variant)\<close>

text \<open>
  While the Reader thread waits on a condition or sits in the blocking \<open>::read\<close>, its
  mutex is free and the consumer thread may run.  These are the changes the consumer
  makes to a Reader under that mutex: \<open>Reader::readData\<close> on a non-empty buffer and the
  \<open>eofShortCut\<close> on an empty one (the two exits of \<open>KDPipeIODevice::readData\<close>), the
  \<open>consumerBlocksOnUs\<close> flag (set while that function waits, reset after), and \<open>cancel\<close>
  (\<open>stopThreads\<close>).
\<close>

datatype consumer_step = CReadData int | CShortCut | CBlocks bool | CCancel

definition consumer_effect :: "consumer_step \<Rightarrow> Reader \<Rightarrow> Reader" where
  "consumer_effect s r =
     (case s of
        CReadData maxSize \<Rightarrow>
          if bufferEmpty r then r else snd (snd (Reader_readData (max maxSize 0) r))
      | CShortCut \<Rightarrow> if bufferEmpty r then r\<lparr>eofShortCut := True\<rparr> else r
      | CBlocks b \<Rightarrow> r\<lparr>consumerBlocksOnUs := b\<rparr>
      | CCancel \<Rightarrow> r\<lparr>cancel := True\<rparr>)"

definition interfere :: "consumer_step list \<Rightarrow> Reader \<Rightarrow> Reader" where
  "interfere steps r = fold consumer_effect steps r"

text \<open>
  The outcome of the blocking \<open>::read(fd, buffer + wptr, numBytes)\<close>, retries after
  \<open>EINTR\<close> included: the bytes waiting in the pipe, of which the call delivers at most
  \<open>numBytes\<close> (none at all is end of file), or \<open>-1\<close> with an \<open>errno\<close>.
\<close>

datatype os_read = OsBytes string | OsError int

text \<open>
  What the consumer does during the waits of one round of the \<open>while (true)\<close> loop, and
  what the round's \<open>::read\<close> returns: during \<open>notifyReadyRead\<close> in the first \<open>if\<close>,
  during \<open>waitForCancelCondition.wait\<close>, during each round of the
  \<open>while (... bufferFull())\<close> loop (its \<open>notifyReadyRead\<close> and its
  \<open>bufferNotFullCondition.wait\<close>), and during the \<open>::read\<close>.
\<close>

record iteration_env =
  during_notify :: "consumer_step list"
  during_cancel_wait :: "consumer_step list"
  during_full :: "(consumer_step list \<times> consumer_step list) list"
  during_read :: "consumer_step list"
  read_result :: os_read

text \<open>
  What an observer of the thread sees: a call of \<open>notifyReadyRead\<close> and a \<open>::read\<close> with
  its requested size, each with the Reader's state at that moment.
\<close>

datatype reader_event = Notified Reader | ReadIssued Reader nat

text \<open>The first \<open>if\<close>/\<open>else if\<close> of the loop body.\<close>

definition notify_phase :: "iteration_env \<Rightarrow> Reader \<Rightarrow> reader_event list \<times> Reader" where
  "notify_phase env r =
     (if \<not> cancel r \<and> (eof r \<or> error r) then
        let wasEmpty = bufferEmpty r;
            r1 = interfere (during_notify env) r
        in ([Notified r],
            if \<not> cancel r1 \<and> wasEmpty then interfere (during_cancel_wait env) r1 else r1)
      else if \<not> cancel r \<and> \<not> bufferFull r \<and> \<not> bufferEmpty r then
        ([Notified r], interfere (during_notify env) r)
      else ([], r))"

text \<open>
  The loop \<open>while (!cancel && !error && bufferFull())\<close>.  \<open>None\<close>: the thread is still
  waiting in it when the consumer's recorded steps are used up.
\<close>

fun wait_while_full :: "(consumer_step list \<times> consumer_step list) list \<Rightarrow> Reader \<Rightarrow>
    (reader_event list \<times> Reader) option" where
  "wait_while_full [] r =
     (if \<not> cancel r \<and> \<not> error r \<and> bufferFull r then None else Some ([], r))"
| "wait_while_full (round # rounds) r =
     (if \<not> cancel r \<and> \<not> error r \<and> bufferFull r then
        let r1 = interfere (fst round) r;
            r2 = (if \<not> cancel r1 \<and> bufferFull r1 then interfere (snd round) r1 else r1)
        in map_option (\<lambda>(evs, r'). (Notified r # evs, r')) (wait_while_full rounds r2)
      else Some ([], r))"

text \<open>
  The preparation of the \<open>::read\<close>: the pointers are reset when the buffer is empty, and
  the size requested is the free space, cut at the end of the array.
\<close>

definition issue_read :: "Reader \<Rightarrow> Reader \<times> nat" where
  "issue_read r =
     (let r1 = (if rptr r = wptr r then r\<lparr>rptr := 0, wptr := 0\<rparr> else r);
          numBytes0 = (rptr r1 + sizeof_buffer - wptr r1 - 1) mod sizeof_buffer;
          numBytes = (if numBytes0 > sizeof_buffer - wptr r1 then sizeof_buffer - wptr r1
                      else numBytes0)
      in (r1, numBytes))"

text \<open>The bookkeeping after the \<open>::read\<close> has returned, with the mutex held again.\<close>

definition store_read :: "os_read \<Rightarrow> nat \<Rightarrow> Reader \<Rightarrow> Reader" where
  "store_read res numBytes r =
     (case res of
        OsError code \<Rightarrow> r\<lparr>errorCode := code, error := True\<rparr>
      | OsBytes pending \<Rightarrow>
          let got = take numBytes pending;
              numRead = length got
          in if numRead = 0 then r\<lparr>eof := True\<rparr>
             else r\<lparr>buffer := take (wptr r) (buffer r) @ got @ drop (wptr r + numRead) (buffer r),
                     wptr := (wptr r + numRead) mod sizeof_buffer\<rparr>)"

text \<open>
  \<open>Reader::run\<close> for as many rounds of its outer loop as environments are given: the
  events of the thread, in order.  The thread ends at \<open>goto leave\<close> when \<open>cancel\<close> is set.
\<close>

fun Reader_run :: "iteration_env list \<Rightarrow> Reader \<Rightarrow> reader_event list" where
  "Reader_run [] r = []"
| "Reader_run (env # envs) r =
     (case notify_phase env r of
        (evA, rA) \<Rightarrow>
          (case wait_while_full (during_full env) rA of
             None \<Rightarrow> evA
           | Some (evB, rB) \<Rightarrow>
               if cancel rB then evA @ evB
               else if \<not> eof rB \<and> \<not> error rB then
                 (case issue_read rB of
                    (rC, numBytes) \<Rightarrow>
                      evA @ evB @ ReadIssued rC numBytes #
                        Reader_run envs
                          (store_read (read_result env) numBytes (interfere (during_read env) rC)))
               else evA @ evB @ Reader_run envs rB))"

subsection \<open>Properties of Reader states\<close>

text \<open>Both pointers index the array.\<close>

definition ptrs_ok :: "Reader \<Rightarrow> bool" where
  "ptrs_ok r \<longleftrightarrow> rptr r < sizeof_buffer \<and> wptr r < sizeof_buffer"

text \<open>
  The cells holding bytes not yet handed to the consumer, and the cells a \<open>::read\<close> of
  \<open>n\<close> bytes at \<open>buffer + wptr\<close> stores to.
\<close>

definition unread_cells :: "Reader \<Rightarrow> nat set" where
  "unread_cells r = (\<lambda>i. (rptr r + i) mod sizeof_buffer) ` {..< bytesInBuffer r}"

definition write_cells :: "Reader \<Rightarrow> nat \<Rightarrow> nat set" where
  "write_cells r n = {wptr r ..< wptr r + n}"

text \<open>
  What C8 says of one event: a \<open>::read\<close> asks for at least one byte, for no more than
  the free space, stays inside the array and stores to no unread cell.
\<close>

fun read_in_bounds :: "reader_event \<Rightarrow> bool" where
  "read_in_bounds (Notified r) = True"
| "read_in_bounds (ReadIssued r n) =
     (0 < n \<and> n \<le> BUFFER_SIZE - bytesInBuffer r \<and> wptr r + n \<le> sizeof_buffer
      \<and> unread_cells r \<inter> write_cells r n = {})"

text \<open>The requested sizes of the reads in a trace, with the pointers at each request.\<close>

fun read_requests :: "reader_event list \<Rightarrow> (nat \<times> nat \<times> nat) list" where
  "read_requests [] = []"
| "read_requests (Notified r # evs) = read_requests evs"
| "read_requests (ReadIssued r n # evs) = (rptr r, wptr r, n) # read_requests evs"

text \<open>
  The number of buffered bytes \<open>Reader::readData\<close> can hand out in one call: those stored
  from the read pointer up to the write pointer or, when the data wraps, up to the end
  of the array.
\<close>

definition contiguous :: "Reader \<Rightarrow> nat" where
  "contiguous r = (if rptr r < wptr r then wptr r - rptr r else sizeof_buffer - rptr r)"

text \<open>
  The \<open>eofShortCut\<close> is only ever set by \<open>KDPipeIODevice::readData\<close> on an empty buffer,
  where the source asserts \<open>r->eof || r->error\<close>.
\<close>

definition shortcut_ok :: "Reader \<Rightarrow> bool" where
  "shortcut_ok r \<longleftrightarrow> (eofShortCut r \<longrightarrow> (eof r \<or> error r) \<and> bufferEmpty r)"

text \<open>
  What the consumer, waiting in \<open>KDPipeIODevice::readData\<close>, may rely on when the Reader
  thread wakes it: the thread never writes \<open>eofShortCut\<close>, and it calls
  \<open>notifyReadyRead\<close> only with \<open>eof\<close> or \<open>error\<close> set or with bytes in the buffer
  (lemma \<open>Reader_run_notifies\<close>; the source asserts it after the wait).
\<close>

definition wakes_consumer :: "(Reader \<Rightarrow> Reader) \<Rightarrow> Reader \<Rightarrow> bool" where
  "wakes_consumer f r \<longleftrightarrow>
     eofShortCut (f r) = eofShortCut r \<and> (eof (f r) \<or> error (f r) \<or> \<not> bufferEmpty (f r))"

fun notified_with_news :: "reader_event \<Rightarrow> bool" where
  "notified_with_news (Notified r) = (eof r \<or> error r \<or> \<not> bufferEmpty r)"
| "notified_with_news (ReadIssued r n) = True"

section \<open>The UI server (uiserver/uiserver.cpp)\<close>

text \<open>What the server does that others observe: the calls and signals of \<open>stop\<close>.\<close>

datatype server_event = SessionDataCleared | StoppedEmitted

text \<open>
  The state of a \<open>UiServer\<close> with the part of its environment it acts on.  Of
  \<open>UiServer::Private\<close>: the \<open>QFile file\<close> (here \<open>qfile\<close>; \<open>None\<close> while it has no name), the vector of
  live connections (each an identity), the two socket names, and what
  \<open>QTcpServer::isListening\<close> reports.  Of the environment: the paths that exist in the file
  system, the socket paths on which some process accepts connections, whether
  \<open>assuan_new\<close> fails for lack of resources, and the events so far.
\<close>

record UiServer =
  qfile :: "string option"
  connections :: "nat list"
  suggestedSocketName :: string
  actualSocketName :: string
  cryptoCommandsEnabled :: bool
  listening :: bool
  files :: "string set"
  undeletable :: "string set"
  accepting :: "string set"
  assuan_new_fails :: bool
  events :: "server_event list"

definition isStopped :: "UiServer \<Rightarrow> bool" where
  "isStopped s \<longleftrightarrow> connections s = [] \<and> \<not> listening s"

definition isStopping :: "UiServer \<Rightarrow> bool" where
  "isStopping s \<longleftrightarrow> connections s \<noteq> [] \<and> \<not> listening s"

text \<open>
  \<open>if (isStopped()) { SessionDataHandler::instance()->clear(); Q_EMIT stopped(); }\<close>, the
  common tail of \<open>stop\<close> and \<open>slotConnectionClosed\<close>.
\<close>

definition emit_if_stopped :: "UiServer \<Rightarrow> UiServer" where
  "emit_if_stopped s =
     (if isStopped s then s\<lparr>events := events s @ [SessionDataCleared, StoppedEmitted]\<rparr> else s)"

text \<open>
  \<open>QFile::remove\<close> (Qt): the path is unlinked and \<open>true\<close> returned, or the file system
  refuses, nothing changes and \<open>false\<close> is returned.
\<close>

definition QFile_remove :: "string \<Rightarrow> UiServer \<Rightarrow> bool \<times> UiServer" where
  "QFile_remove path s =
     (if path \<in> files s \<and> path \<notin> undeletable s
      then (True, s\<lparr>files := files s - {path}\<rparr>)
      else (False, s))"

text \<open>
  \<open>UiServer::stop\<close>: \<open>QTcpServer::close\<close> ends listening (nobody accepts on the socket any
  more); if the \<open>file\<close> exists, \<open>file.remove()\<close> is called and its result dropped.
\<close>

definition stop :: "UiServer \<Rightarrow> UiServer" where
  "stop s =
     (let s1 = s\<lparr>listening := False, accepting := accepting s - {actualSocketName s}\<rparr>;
          s2 = (case qfile s1 of
                  Some f \<Rightarrow> if f \<in> files s1 then snd (QFile_remove f s1) else s1
                | None \<Rightarrow> s1)
      in emit_if_stopped s2)"

text \<open>\<open>slotConnectionClosed\<close>: \<open>erase(remove_if(...))\<close> drops every entry for that connection.\<close>

definition slotConnectionClosed :: "nat \<Rightarrow> UiServer \<Rightarrow> UiServer" where
  "slotConnectionClosed conn s =
     emit_if_stopped (s\<lparr>connections := filter (\<lambda>other. \<not> conn = other) (connections s)\<rparr>)"

text \<open>
  \<open>isStaleAssuanSocket\<close> (with \<open>HAVE_ASSUAN2\<close>): \<open>assuan_new(&ctx) ||
  assuan_socket_connect(ctx, fileName, ...)\<close>; the trial connection succeeds when a
  process accepts on that path, and is released again.
\<close>

definition isStaleAssuanSocket :: "UiServer \<Rightarrow> string \<Rightarrow> bool" where
  "isStaleAssuanSocket s fileName \<longleftrightarrow> assuan_new_fails s \<or> fileName \<notin> accepting s"

text \<open>
  Modelled from the spec: \<open>doMakeListeningSocket\<close> is defined in a platform file that is
  not among the sources.  The specification says of it that the server must
  ``bind/listen at that path'', and that a socket file left at the path is
  ``blocking restart'': binding fails while a file exists at the path; otherwise the
  socket file is created and the server listens and accepts there.  The result is the
  state and the message of the exception thrown, if any.
\<close>

definition doMakeListeningSocket :: "string \<Rightarrow> UiServer \<Rightarrow> UiServer \<times> string option" where
  "doMakeListeningSocket fileName s =
     (if fileName \<in> files s then (s, Some ''Could not bind to socket'')
      else (s\<lparr>files := insert fileName (files s), accepting := insert fileName (accepting s),
               listening := True\<rparr>, None))"

text \<open>
  \<open>makeListeningSocket\<close>.  \<open>i18n\<close> is modelled as the substitution of \<open>%1\<close> in the
  untranslated text.  The source calls \<open>QFile::remove(fileName)\<close> as a statement: what it
  returns is dropped, and \<open>doMakeListeningSocket\<close> is called whether or not the stale file
  is gone.
\<close>

definition already_running_message :: "string \<Rightarrow> string" where
  "already_running_message fileName =
     ''Detected another running gnupg UI server listening at '' @ fileName @ ''.''"

definition makeListeningSocket :: "UiServer \<Rightarrow> UiServer \<times> string option" where
  "makeListeningSocket s =
     (let fileName = suggestedSocketName s in
      if fileName \<in> files s \<and> \<not> isStaleAssuanSocket s fileName
      then (s, Some (already_running_message fileName))
      else
        let s1 = (if fileName \<in> files s then snd (QFile_remove fileName s) else s)
        in case doMakeListeningSocket fileName s1 of
             (s2, Some msg) \<Rightarrow> (s2, Some msg)
           | (s2, None) \<Rightarrow> (s2\<lparr>actualSocketName := suggestedSocketName s2\<rparr>, None))"

section \<open>Concrete states used to instantiate the theorems\<close>

definition sample_entry :: option_entry where
  "sample_entry = \<lparr>opt_value = Variant ''1'', hasValue = True, isCritical = True\<rparr>"

definition sample_command :: Command where
  "sample_command =
     \<lparr>inputs = \<lparr>parentWId = 0, options = [('''', sample_entry), (''k'', sample_entry)],
                 filePaths = [], recipients = [], senders = [], inquireData = [],
                 command = ''CMD'', areRecipientsInformative = False,
                 areSendersInformative = False\<rparr>,
      outputs = \<lparr>errorString = [], canceled = False, data = [], serverPid = 0,
                  serverLocation = []\<rparr>\<rparr>"

text \<open>A device opened for reading on descriptor 3.\<close>

definition opened_for_reading :: KDPipeIODevice where
  "opened_for_reading = snd (doOpen Posix 3 0 ReadOnly new_KDPipeIODevice)"


text \<open>
  Three rounds of the Reader thread: the pipe delivers more than the buffer holds; the
  consumer takes ten bytes while the thread waits on the full buffer, then one byte
  arrives; then twenty more bytes are waiting.
\<close>

definition env_fill :: iteration_env where
  "env_fill = \<lparr>during_notify = [], during_cancel_wait = [], during_full = [], during_read = [],
      read_result = OsBytes (replicate 5000 (CHR ''a''))\<rparr>"

definition env_drain :: iteration_env where
  "env_drain = \<lparr>during_notify = [], during_cancel_wait = [],
      during_full = [([CReadData 10], [])], during_read = [],
      read_result = OsBytes ''b''\<rparr>"

definition env_wrap :: iteration_env where
  "env_wrap = \<lparr>during_notify = [], during_cancel_wait = [], during_full = [], during_read = [],
      read_result = OsBytes (replicate 20 (CHR ''c''))\<rparr>"






text \<open>A device whose first \<open>::read\<close> failed with \<open>EIO\<close> (5).\<close>

definition reader_failed :: Reader where
  "reader_failed =
     store_read (OsError 5) 4096 (fst (issue_read ((new_Reader 3 0)\<lparr>r_thread := Running\<rparr>)))"

definition device_failed :: KDPipeIODevice where
  "device_failed = opened_for_reading\<lparr>triedToStartReader := True, reader := Some reader_failed\<rparr>"

text \<open>That device after a first \<open>readData\<close>.\<close>

definition device_failed_read_once :: KDPipeIODevice where
  "device_failed_read_once = snd (snd (projr (readData 1 None device_failed)))"



text \<open>
  A server about to start at \<open>/run/S.uiserver\<close> where a previous run left its socket file:
  once with nobody accepting there, once with another server live, once with nobody
  accepting and the file owned by somebody else, so that this process cannot unlink it.
  And a listening server with connections 1, 2 and 3.
\<close>

definition server_stale :: UiServer where
  "server_stale =
     \<lparr>qfile = None, connections = [], suggestedSocketName = ''/run/S.uiserver'',
      actualSocketName = [], cryptoCommandsEnabled = False, listening = False,
      files = {''/run/S.uiserver''}, undeletable = {}, accepting = {},
      assuan_new_fails = False, events = []\<rparr>"

definition server_conflict :: UiServer where
  "server_conflict = server_stale\<lparr>accepting := {''/run/S.uiserver''}\<rparr>"

definition server_undeletable :: UiServer where
  "server_undeletable = server_stale\<lparr>undeletable := {''/run/S.uiserver''}\<rparr>"

definition server_busy :: UiServer where
  "server_busy =
     \<lparr>qfile = None, connections = [1, 2, 3], suggestedSocketName = ''/run/S.uiserver'',
      actualSocketName = ''/run/S.uiserver'', cryptoCommandsEnabled = False, listening = True,
      files = {''/run/S.uiserver''}, undeletable = {}, accepting = {''/run/S.uiserver''},
      assuan_new_fails = False, events = []\<rparr>"

text \<open>
  A server that is reachable and reports process id 4711.  It answers every \<open>FILE\<close>
  line, every \<open>OPTION\<close> line and the command \<open>CANCEL_ME\<close> with a status whose code is
  \<open>GPG_ERR_CANCELED\<close> (99, here from error source 5), and everything else with success.
\<close>

definition canceling_peer :: "string list \<Rightarrow> string \<Rightarrow> response" where
  "canceling_peer sent line =
     (if line = ''GETINFO pid'' then \<lparr>status = 0, payload = [''4711''], inquires = []\<rparr>
      else if take 5 line = ''FILE '' \<or> take 7 line = ''OPTION '' \<or> line = ''CANCEL_ME''
      then \<lparr>status = 0x05000063, payload = [], inquires = []\<rparr>
      else \<lparr>status = 0, payload = [''done''], inquires = []\<rparr>)"

definition sample_env :: run_env where
  "sample_env =
     \<lparr>default_socket_name = ''/run/S.uiserver'', assuan_new_status = 0,
      connect_status = (\<lambda>attempt. 0), start_uiserver_result = [],
      peer = canceling_peer,
      to_error_string = (\<lambda>err. if err = 0 then ''Success'' else ''Operation cancelled''),
      toLongLong = (\<lambda>s. if s = ''4711'' then 4711 else 0)\<rparr>"

definition command_with :: "option_entry std_map \<Rightarrow> string list \<Rightarrow> string \<Rightarrow> Command" where
  "command_with opts paths verb =
     \<lparr>inputs = \<lparr>parentWId = 0, options = opts, filePaths = paths, recipients = [],
                 senders = [], inquireData = [], command = verb,
                 areRecipientsInformative = False, areSendersInformative = False\<rparr>,
      outputs = new_Outputs\<rparr>"

definition plain_option :: option_entry where
  "plain_option = \<lparr>opt_value = InvalidVariant, hasValue = False, isCritical = False\<rparr>"

chapter \<open>Auxiliary lemmas\<close>

section \<open>Arithmetic of the ring buffer\<close>

lemma ring_diff_le: "r \<le> w \<Longrightarrow> w < s \<Longrightarrow> (w + s - r) mod s = w - (r::nat)"
proof -
  assume a: "r \<le> w" "w < s"
  then have "w + s - r = (w - r) + s" by simp
  then have "(w + s - r) mod s = (w - r) mod s" by (simp only: mod_add_self2)
  with a show ?thesis by simp
qed

lemma ring_diff_gt: "w < r \<Longrightarrow> r < s \<Longrightarrow> (w + s - r) mod s = w + s - (r::nat)"
  by simp

lemma sizeof_buffer_pos: "0 < sizeof_buffer"
  by (simp add: sizeof_buffer_def)

lemma bytesInBuffer_less: "bytesInBuffer r < sizeof_buffer"
  by (simp add: bytesInBuffer_def sizeof_buffer_pos)

lemma free_space_nat:
  assumes "rp < s" "wp < s"
  shows "(rp + s - wp - 1) mod s = (s - 1) - ((wp + s - rp) mod (s::nat))"
proof -
  consider "rp = wp" | "rp < wp" | "wp < rp" by arith
  then show ?thesis
  proof cases
    case 1
    with assms show ?thesis by simp
  next
    case 2
    with assms have a: "(wp + s - rp) mod s = wp - rp" by (simp add: ring_diff_le)
    from 2 assms have "rp + s - wp - 1 < s" by arith
    then have "(rp + s - wp - 1) mod s = rp + s - wp - 1" by simp
    with a 2 assms show ?thesis by arith
  next
    case 3
    with assms have a: "(wp + s - rp) mod s = wp + s - rp" by (simp add: ring_diff_gt)
    from 3 assms have "rp + s - wp - 1 = (rp - wp - 1) + s" by arith
    then have "(rp + s - wp - 1) mod s = (rp - wp - 1) mod s" by (simp only: mod_add_self2)
    moreover from 3 assms have "rp - wp - 1 < s" by arith
    ultimately have "(rp + s - wp - 1) mod s = rp - wp - 1" by simp
    with a 3 assms show ?thesis by arith
  qed
qed

lemma free_space:
  assumes "ptrs_ok r"
  shows "(rptr r + sizeof_buffer - wptr r - 1) mod sizeof_buffer = BUFFER_SIZE - bytesInBuffer r"
  using assms free_space_nat [of "rptr r" sizeof_buffer "wptr r"]
  by (simp add: ptrs_ok_def bytesInBuffer_def sizeof_buffer_def)

lemma free_space_Suc:
  "ptrs_ok r \<Longrightarrow>
     (rptr r + sizeof_buffer - Suc (wptr r)) mod sizeof_buffer = BUFFER_SIZE - bytesInBuffer r"
  using free_space [of r] by simp

lemma not_full_free: "\<not> bufferFull r \<Longrightarrow> 0 < BUFFER_SIZE - bytesInBuffer r"
  using bytesInBuffer_less [of r] by (simp add: bufferFull_def sizeof_buffer_def)

lemma bufferFull_not_empty: "bufferFull r \<Longrightarrow> \<not> bufferEmpty r"
  by (simp add: bufferFull_def bufferEmpty_def sizeof_buffer_def BUFFER_SIZE_def)


lemma contiguous_unwrapped:
  "ptrs_ok r \<Longrightarrow> rptr r < wptr r \<Longrightarrow> contiguous r = bytesInBuffer r"
  by (simp add: contiguous_def bytesInBuffer_def ptrs_ok_def ring_diff_le)

section \<open>The pointers stay inside the array\<close>

lemma ptrs_ok_new_Reader: "ptrs_ok (new_Reader fd' handle')"
  by (simp add: ptrs_ok_def new_Reader_def sizeof_buffer_def)

lemma ptrs_ok_Reader_readData: "ptrs_ok r \<Longrightarrow> ptrs_ok (snd (snd (Reader_readData n r)))"
  by (simp add: ptrs_ok_def Reader_readData_def Let_def sizeof_buffer_pos)

lemma ptrs_ok_consumer_effect: "ptrs_ok r \<Longrightarrow> ptrs_ok (consumer_effect s r)"
  by (cases s) (auto simp: consumer_effect_def ptrs_ok_Reader_readData, simp_all add: ptrs_ok_def)

lemma ptrs_ok_interfere: "ptrs_ok r \<Longrightarrow> ptrs_ok (interfere steps r)"
  unfolding interfere_def
  by (induction steps arbitrary: r) (simp_all add: ptrs_ok_consumer_effect)

lemma ptrs_ok_notify_phase: "ptrs_ok r \<Longrightarrow> ptrs_ok (snd (notify_phase env r))"
  by (simp add: notify_phase_def Let_def ptrs_ok_interfere)

lemma ptrs_ok_wait_while_full:
  "ptrs_ok r \<Longrightarrow> wait_while_full rounds r = Some (evs, r') \<Longrightarrow> ptrs_ok r'"
proof (induction rounds arbitrary: r evs)
  case Nil
  then show ?case by (simp split: if_splits)
next
  case (Cons round rounds)
  show ?case
  proof (cases "\<not> cancel r \<and> \<not> error r \<and> bufferFull r")
    case False
    with Cons.prems show ?thesis by auto
  next
    case True
    define r1 where "r1 = interfere (fst round) r"
    define r2 where "r2 = (if \<not> cancel r1 \<and> bufferFull r1 then interfere (snd round) r1 else r1)"
    have ok2: "ptrs_ok r2"
      using Cons.prems(1) by (simp add: r1_def r2_def ptrs_ok_interfere)
    from True have "wait_while_full (round # rounds) r =
        map_option (\<lambda>(evs, r'). (Notified r # evs, r')) (wait_while_full rounds r2)"
      by (simp add: r1_def r2_def Let_def)
    with Cons.prems(2) obtain evs' where "wait_while_full rounds r2 = Some (evs', r')"
      by (cases "wait_while_full rounds r2") auto
    with ok2 show ?thesis by (rule Cons.IH)
  qed
qed

lemma ptrs_ok_issue_read: "ptrs_ok r \<Longrightarrow> ptrs_ok (fst (issue_read r))"
  by (simp add: issue_read_def ptrs_ok_def Let_def sizeof_buffer_pos)

lemma ptrs_ok_store_read: "ptrs_ok r \<Longrightarrow> ptrs_ok (store_read res n r)"
  by (cases res) (simp_all add: store_read_def ptrs_ok_def Let_def sizeof_buffer_pos)

section \<open>The consumer's calls on a Reader\<close>

lemma startReaderThread_fields:
  "isOpen (startReaderThread d) = isOpen d"
  "qbuffer (startReaderThread d) = qbuffer d"
  "openMode (startReaderThread d) = openMode d"
  "triedToStartReader (startReaderThread d)"
  by (simp_all add: startReaderThread_def isOpen_def Let_def split: option.splits)

lemma startReaderThread_tried: "triedToStartReader d \<Longrightarrow> startReaderThread d = d"
  by (simp add: startReaderThread_def)

lemma bytesAvailable_started:
  assumes "reader (startReaderThread d) = Some r"
  shows "bytesAvailable (startReaderThread d) =
           (int (length (qbuffer d)) + int (bytesInBuffer r), startReaderThread d)"
  using assms
  by (simp add: bytesAvailable_def QIODevice_bytesAvailable_def startReaderThread_fields)

lemma Reader_readData_eq:
  "0 \<le> m \<Longrightarrow>
     Reader_readData m r =
       (min m (int (contiguous r)),
        take (nat (min m (int (contiguous r)))) (drop (rptr r) (buffer r)),
        r\<lparr>rptr := (rptr r + nat (min m (int (contiguous r)))) mod sizeof_buffer\<rparr>)"
  by (simp add: Reader_readData_def contiguous_def Let_def min_def)

lemma readData_locked_data:
  assumes "\<not> bufferEmpty r" "0 \<le> m"
  shows "readData_locked m r d =
           (min m (int (contiguous r)),
            take (nat (min m (int (contiguous r)))) (drop (rptr r) (buffer r)),
            d\<lparr>reader := Some (r\<lparr>rptr := (rptr r + nat (min m (int (contiguous r)))) mod sizeof_buffer\<rparr>)\<rparr>)"
  using assms by (simp add: readData_locked_def Reader_readData_eq)

lemma readData_locked_empty:
  assumes "bufferEmpty r"
  shows "readData_locked m r d =
           ((if eof r then 0 else -1), [], d\<lparr>reader := Some (r\<lparr>eofShortCut := True\<rparr>)\<rparr>)"
  using assms by (simp add: readData_locked_def)


lemma readData_shortcut:
  assumes "reader (startReaderThread d) = Some r" "eofShortCut r"
  shows "readData n wake d = Inr (0, [], startReaderThread d)"
  using assms by (simp add: readData_def)


lemma readData_finished:
  assumes "reader (startReaderThread d) = Some r" "\<not> eofShortCut r"
      and "bufferEmpty r" "eof r \<or> error r"
  shows "readData n wake d =
           Inr ((if eof r then 0 else -1), [],
                (startReaderThread d)\<lparr>reader := Some (r\<lparr>eofShortCut := True\<rparr>)\<rparr>)"
  using assms by (auto simp: readData_def Let_def readData_locked_empty)



lemma shortcut_ok_new_Reader: "shortcut_ok (new_Reader fd' handle')"
  by (simp add: shortcut_ok_def new_Reader_def)

lemma doOpen_reader_ok:
  "doOpen p fd' handle' mode' d = (True, d') \<Longrightarrow> reader d' = Some r \<Longrightarrow>
     ptrs_ok r \<and> shortcut_ok r"
  by (auto simp: doOpen_def Let_def ptrs_ok_def new_Reader_def
      sizeof_buffer_def shortcut_ok_def split: if_splits)

lemma readData_locked_ok:
  assumes "ptrs_ok r" "\<not> eofShortCut r" "eof r \<or> error r \<or> \<not> bufferEmpty r" "0 \<le> m"
      and "readData_locked m r d = (k, bytes, d')"
  shows "\<exists>r'. reader d' = Some r' \<and> ptrs_ok r' \<and> shortcut_ok r'"
proof (cases "bufferEmpty r")
  case True
  with assms(5) have "reader d' = Some (r\<lparr>eofShortCut := True\<rparr>)"
    by (auto simp: readData_locked_empty)
  moreover from True assms(1,3) have "ptrs_ok (r\<lparr>eofShortCut := True\<rparr>)" "shortcut_ok (r\<lparr>eofShortCut := True\<rparr>)"
    by (auto simp: ptrs_ok_def shortcut_ok_def bufferEmpty_def bytesInBuffer_def)
  ultimately show ?thesis by simp
next
  case False
  let ?r' = "r\<lparr>rptr := (rptr r + nat (min m (int (contiguous r)))) mod sizeof_buffer\<rparr>"
  from False assms(4,5) have "reader d' = Some ?r'"
    by (auto simp: readData_locked_data)
  moreover from assms(1,2) have "ptrs_ok ?r'" "shortcut_ok ?r'"
    by (simp_all add: ptrs_ok_def shortcut_ok_def sizeof_buffer_def)
  ultimately show ?thesis by simp
qed

lemma readData_keeps_invariants:
  assumes "reader (startReaderThread d) = Some r" "ptrs_ok r" "shortcut_ok r"
      and "\<And>f. wake = Some f \<Longrightarrow>
             wakes_consumer f (r\<lparr>consumerBlocksOnUs := True\<rparr>) \<and> ptrs_ok (f (r\<lparr>consumerBlocksOnUs := True\<rparr>))"
      and "readData n wake d = Inr (k, bytes, d')"
  shows "\<exists>r'. reader d' = Some r' \<and> ptrs_ok r' \<and> shortcut_ok r'"
proof (cases "eofShortCut r")
  case True
  with assms(1,5) have "d' = startReaderThread d" by (simp add: readData_shortcut)
  with assms(1,2,3) show ?thesis by simp
next
  case nsc: False
  define m where "m = (let maxSize1 = (if n < 0 then 0 else n);
                avail = fst (bytesAvailable (startReaderThread d))
            in if avail > 0 then min maxSize1 avail else maxSize1)"
  have m0: "0 \<le> m" by (simp add: m_def Let_def)
  show ?thesis
  proof (cases "bufferEmpty r \<and> \<not> error r \<and> \<not> eof r")
    case False
    with assms(1,5) nsc have "readData_locked m r (startReaderThread d) = (k, bytes, d')"
      by (auto simp: readData_def m_def Let_def)
    moreover from False have "eof r \<or> error r \<or> \<not> bufferEmpty r" by blast
    ultimately show ?thesis using assms(2) nsc m0 by (intro readData_locked_ok [of r m])
  next
    case True
    with assms(1,5) nsc obtain f where f: "wake = Some f"
      and l: "readData_locked m (woken f r) (startReaderThread d) = (k, bytes, d')"
      by (cases wake) (auto simp: readData_def m_def Let_def)
    let ?b = "r\<lparr>consumerBlocksOnUs := True\<rparr>"
    from assms(4) [OF f] have w: "wakes_consumer f ?b" and p: "ptrs_ok (f ?b)" by simp_all
    from p have p': "ptrs_ok (woken f r)" by (simp add: woken_def ptrs_ok_def)
    from w nsc have s: "\<not> eofShortCut (woken f r)" by (simp add: woken_def wakes_consumer_def)
    from w have u: "eof (woken f r) \<or> error (woken f r) \<or> \<not> bufferEmpty (woken f r)"
      by (simp add: woken_def wakes_consumer_def bufferEmpty_def bytesInBuffer_def)
    from p' s u m0 l show ?thesis by (rule readData_locked_ok)
  qed
qed

section \<open>When the Reader thread notifies\<close>

lemma wait_while_full_notifies:
  "wait_while_full rounds r = Some (evs, r') \<Longrightarrow> list_all notified_with_news evs"
proof (induction rounds arbitrary: r evs)
  case Nil
  then show ?case by (auto split: if_splits)
next
  case (Cons round rounds)
  show ?case
  proof (cases "\<not> cancel r \<and> \<not> error r \<and> bufferFull r")
    case False
    with Cons.prems show ?thesis by auto
  next
    case True
    define r1 where "r1 = interfere (fst round) r"
    define r2 where "r2 = (if \<not> cancel r1 \<and> bufferFull r1 then interfere (snd round) r1 else r1)"
    from True have "wait_while_full (round # rounds) r =
        map_option (\<lambda>(evs, r'). (Notified r # evs, r')) (wait_while_full rounds r2)"
      by (simp add: r1_def r2_def Let_def)
    with Cons.prems obtain evs' where e: "wait_while_full rounds r2 = Some (evs', r')"
      and evs: "evs = Notified r # evs'"
      by (cases "wait_while_full rounds r2") auto
    from e have "list_all notified_with_news evs'" by (rule Cons.IH)
    with evs True show ?thesis by (simp add: bufferFull_not_empty)
  qed
qed

lemma notify_phase_notifies: "list_all notified_with_news (fst (notify_phase env r))"
  by (auto simp: notify_phase_def Let_def)

lemma Reader_run_notifies: "list_all notified_with_news (Reader_run envs r)"
proof (induction envs arbitrary: r)
  case Nil
  then show ?case by simp
next
  case (Cons env envs)
  obtain evA rA where A: "notify_phase env r = (evA, rA)" by (cases "notify_phase env r")
  have evA: "list_all notified_with_news evA" using notify_phase_notifies [of env r] A by simp
  show ?case
  proof (cases "wait_while_full (during_full env) rA")
    case None
    with A evA show ?thesis by simp
  next
    case (Some p)
    obtain evB rB where "p = (evB, rB)" by (cases p)
    with Some have B: "wait_while_full (during_full env) rA = Some (evB, rB)" by simp
    have evB: "list_all notified_with_news evB" using B by (rule wait_while_full_notifies)
    obtain rC n where C: "issue_read rB = (rC, n)" by (cases "issue_read rB")
    from A B C evA evB Cons.IH show ?thesis by simp
  qed
qed

section \<open>Facts about the concrete states\<close>

lemmas sample_device_defs =
  opened_for_reading_def doOpen_def isOpen_def new_KDPipeIODevice_def invalid_descriptor_def
  NotOpen_def ReadOnly_def WriteOnly_def ReadWrite_def Unbuffered_def

lemmas reader_step_defs =
  new_Reader_def issue_read_def store_read_def consumer_effect_def Reader_readData_def
  bytesInBuffer_def bufferFull_def bufferEmpty_def sizeof_buffer_def BUFFER_SIZE_def

lemma opened_for_reading_eq:
  "opened_for_reading = new_KDPipeIODevice\<lparr>fd := 3, handle := 0, reader := Some (new_Reader 3 0), writer := None, openMode := 0x21\<rparr>"
  by (simp add: opened_for_reading_def doOpen_def isOpen_def new_KDPipeIODevice_def
      invalid_descriptor_def NotOpen_def ReadOnly_def WriteOnly_def ReadWrite_def Unbuffered_def Let_def)


lemma opened_for_reading_reader:
  "reader (startReaderThread opened_for_reading) = Some ((new_Reader 3 0)\<lparr>r_thread := Running\<rparr>)"
  by (simp add: startReaderThread_def sample_device_defs new_Reader_def Let_def)

lemma opened_for_reading_facts:
  "isOpen opened_for_reading" "qbuffer opened_for_reading = []"
  by (simp_all add: sample_device_defs Let_def)




lemma reader_failed_fields:
  "error reader_failed" "\<not> eof reader_failed" "\<not> eofShortCut reader_failed"
  "bufferEmpty reader_failed" "ptrs_ok reader_failed" "shortcut_ok reader_failed"
  by (simp_all add: reader_failed_def reader_step_defs ptrs_ok_def shortcut_ok_def Let_def)

lemma device_failed_reader: "reader (startReaderThread device_failed) = Some reader_failed"
  by (simp add: device_failed_def startReaderThread_def)

lemma device_failed_first_read:
  "readData 1 None device_failed =
     Inr (-1, [], device_failed\<lparr>reader := Some (reader_failed\<lparr>eofShortCut := True\<rparr>)\<rparr>)"
proof -
  have "startReaderThread device_failed = device_failed"
    by (simp add: device_failed_def startReaderThread_def)
  with readData_finished [OF device_failed_reader, of 1 None] show ?thesis
    by (simp add: reader_failed_fields)
qed

lemma device_failed_read_once_eq:
  "device_failed_read_once = device_failed\<lparr>reader := Some (reader_failed\<lparr>eofShortCut := True\<rparr>)\<rparr>"
  by (simp add: device_failed_read_once_def device_failed_first_read)


lemma device_failed_read_once_facts:
  "isOpen device_failed_read_once" "qbuffer device_failed_read_once = []"
  "reader (startReaderThread device_failed_read_once) = Some (reader_failed\<lparr>eofShortCut := True\<rparr>)"
  "startReaderThread device_failed_read_once = device_failed_read_once"
  "reader device_failed_read_once = Some (reader_failed\<lparr>eofShortCut := True\<rparr>)"
  by (simp_all add: device_failed_read_once_eq device_failed_def startReaderThread_def
      sample_device_defs Let_def)


chapter \<open>The claims\<close>

section \<open>C1: the encoder against the wire decoding\<close>

lemma special_codes:
  "char_of (34::nat) = CHR 0x22" "char_of (35::nat) = CHR ''#''" "char_of (36::nat) = CHR ''$''"
  "char_of (37::nat) = CHR ''%''" "char_of (39::nat) = CHR 0x27" "char_of (43::nat) = CHR ''+''"
  "char_of (61::nat) = CHR ''=''"
  by (simp_all add: char_of_eq_iff)

lemma hexencode_char_special:
  "ch \<in> shell_special \<Longrightarrow>
     hexdecode (hexencode_char ch @ t) = map_option ((#) ch) (hexdecode t)"
  unfolding shell_special_def
  by (auto simp: hexencode_char_def shell_special_def byte_val_def hex_def unhex_def special_codes)

lemma hexencode_char_special_digits:
  "ch \<in> shell_special \<Longrightarrow> hexencode_char ch = wire_encoding ch"
  unfolding shell_special_def
  by (auto simp: hexencode_char_def wire_encoding_def shell_special_def byte_val_def hex_def)

lemma hexencode_char_space:
  "hexdecode (hexencode_char (CHR '' '') @ t) = map_option ((#) (CHR '' '')) (hexdecode t)"
  by (simp add: hexencode_char_def)

lemma byte_32_is_space: "byte_val ch = 32 \<Longrightarrow> ch = CHR '' ''"
proof -
  assume a: "byte_val ch = 32"
  have "ch = char_of (byte_val ch)" by (simp add: byte_val_def)
  with a have "ch = char_of (32::nat)" by simp
  then show ?thesis by (simp add: char_of_eq_iff)
qed

lemma hexencode_char_plain:
  assumes w: "wire_safe ch" and ns: "ch \<notin> shell_special" and sp: "ch \<noteq> CHR '' ''"
  shows "hexencode_char ch = [ch]"
proof -
  from sp have "byte_val ch \<noteq> 32" using byte_32_is_space by blast
  with w have "(33 \<le> byte_val ch \<and> byte_val ch \<le> 126) \<or> byte_val ch > 160"
    unfolding wire_safe_def by arith
  moreover have "byte_val (CHR ''!'') = 33" "byte_val (CHR ''~'') = 126"
    by (simp_all add: byte_val_def)
  ultimately show ?thesis using ns sp
    unfolding hexencode_char_def by simp
qed

lemma hexencode_char_wire_encoding:
  assumes "wire_safe ch"
  shows "hexencode_char ch = wire_encoding ch"
proof (cases "ch = CHR '' ''")
  case True
  then show ?thesis by (simp add: hexencode_char_def wire_encoding_def)
next
  case False
  show ?thesis
  proof (cases "ch \<in> shell_special")
    case True
    then show ?thesis by (rule hexencode_char_special_digits)
  next
    case ns: False
    with assms False have "hexencode_char ch = [ch]" by (simp add: hexencode_char_plain)
    with ns False show ?thesis by (simp add: wire_encoding_def)
  qed
qed

lemma hexdecode_char_step:
  assumes "wire_safe ch"
  shows "hexdecode (hexencode_char ch @ t) = map_option ((#) ch) (hexdecode t)"
proof (cases "ch = CHR '' ''")
  case True
  then show ?thesis by (simp add: hexencode_char_space)
next
  case False
  show ?thesis
  proof (cases "ch \<in> shell_special")
    case True
    then show ?thesis by (rule hexencode_char_special)
  next
    case ns: False
    with assms False have e: "hexencode_char ch = [ch]"
      by (simp add: hexencode_char_plain)
    from ns have "ch \<noteq> CHR ''%''" "ch \<noteq> CHR ''+''"
      by (auto simp: shell_special_def)
    with e show ?thesis by simp
  qed
qed

lemma hexdecode_hexencode: "list_all wire_safe s \<Longrightarrow> hexdecode (hexencode s) = Some s"
  by (induction s) (simp_all add: hexdecode_char_step)

lemma hexencode_concat: "list_all wire_safe s \<Longrightarrow> hexencode s = concat (map wire_encoding s)"
  by (induction s) (simp_all add: hexencode_char_wire_encoding)

text \<open>
  C1, as stated, fails.  The input consisting of a tab (\<open>0x09\<close>) and the high-bit byte
  \<open>0xE9\<close> is encoded as \<open>+\<close> followed by the raw byte \<open>0xE9\<close>: the high-bit byte is not
  escaped as \<open>%E9\<close>, and the tab is sent as the encoding of a space, so that the decoder
  returns a space in its place.
\<close>

theorem hexencode_roundtrip_counterexample:
  "hexencode [CHR 0x09, CHR 0xE9] = [CHR ''+'', CHR 0xE9]
   \<and> hexencode [CHR 0x09, CHR 0xE9] \<noteq> ''%09%E9''
   \<and> hexdecode (hexencode [CHR 0x09, CHR 0xE9]) = Some [CHR '' '', CHR 0xE9]
   \<and> hexdecode (hexencode [CHR 0x09, CHR 0xE9]) \<noteq> Some [CHR 0x09, CHR 0xE9]"
  by (simp add: hexencode_char_def shell_special_def byte_val_def)

text \<open>
  C1, amended.  For every byte string all of whose bytes are a space, printable ASCII
  (\<open>'!'..'~'\<close>) or above \<open>0xA0\<close>, decoding \<open>hexencode\<close> of the string gives the string
  back, and \<open>hexencode\<close> maps the space to \<open>+\<close>, each of \<open>" # $ % ' + =\<close> to \<open>%XX\<close>
  with upper-case hexadecimal digits, and every other such byte (the bytes above \<open>0xA0\<close>
  included) to itself.
\<close>

theorem hexencode_roundtrip_wire_safe:
  assumes "list_all wire_safe s"
  shows "hexdecode (hexencode s) = Some s \<and> hexencode s = concat (map wire_encoding s)"
proof
  show "hexdecode (hexencode s) = Some s" using assms by (rule hexdecode_hexencode)
  show "hexencode s = concat (map wire_encoding s)" using assms by (rule hexencode_concat)
qed

theorem hexencode_roundtrip_wire_safe_witness:
  "list_all wire_safe (''a b#%='' @ [CHR 0xE9])
   \<and> hexencode (''a b#%='' @ [CHR 0xE9]) = ''a+b%23%25%3D'' @ [CHR 0xE9]
   \<and> hexdecode (''a+b%23%25%3D'' @ [CHR 0xE9]) = Some (''a b#%='' @ [CHR 0xE9])"
proof -
  have h: "list_all wire_safe (''a b#%='' @ [CHR 0xE9])"
    by (simp add: wire_safe_def byte_val_def)
  have e: "hexencode (''a b#%='' @ [CHR 0xE9]) = ''a+b%23%25%3D'' @ [CHR 0xE9]"
    by (simp add: hexencode_char_def shell_special_def byte_val_def hex_def)
  from hexencode_roundtrip_wire_safe [OF h]
  have "hexdecode (hexencode (''a b#%='' @ [CHR 0xE9])) = Some (''a b#%='' @ [CHR 0xE9])"
    by (rule conjunct1)
  then have "hexdecode (''a+b%23%25%3D'' @ [CHR 0xE9]) = Some (''a b#%='' @ [CHR 0xE9])"
    by (simp only: e)
  with h e show ?thesis by (intro conjI)
qed

section \<open>C10: option accessors called with a null or empty name\<close>

lemma null_or_empty_cases: "null_or_empty name \<Longrightarrow> name = None \<or> name = Some []"
  by (cases name) (simp_all add: null_or_empty_def)

text \<open>
  C10.  With a null or empty option name, \<open>setOptionValue\<close>, \<open>setOption\<close> and
  \<open>unsetOption\<close> return the command unchanged (the option map and every other field), and
  \<open>optionValue\<close>, \<open>isOptionSet\<close> and \<open>isOptionCritical\<close> return the invalid \<open>QVariant\<close>,
  \<open>false\<close> and \<open>false\<close>, whatever the map holds.
\<close>

theorem option_accessors_null_or_empty_name:
  assumes "null_or_empty name"
  shows "setOptionValue name val critical c = c
         \<and> setOption name critical c = c
         \<and> unsetOption name c = c
         \<and> optionValue name c = InvalidVariant
         \<and> isOptionSet name c = False
         \<and> isOptionCritical name c = False"
  using null_or_empty_cases [OF assms]
  by (auto simp: setOptionValue_def setOption_def unsetOption_def optionValue_def
      isOptionSet_def isOptionCritical_def)

theorem option_accessors_null_or_empty_name_witness:
  "null_or_empty (Some [])
   \<and> setOptionValue (Some []) (Variant ''x'') True sample_command = sample_command
   \<and> setOption (Some []) True sample_command = sample_command
   \<and> unsetOption (Some []) sample_command = sample_command
   \<and> optionValue (Some []) sample_command = InvalidVariant
   \<and> isOptionSet (Some []) sample_command = False
   \<and> isOptionCritical (Some []) sample_command = False"
proof -
  have h: "null_or_empty (Some [])" by (simp add: null_or_empty_def)
  from option_accessors_null_or_empty_name [OF h, of "Variant ''x''" True sample_command] h
  show ?thesis by simp
qed

section \<open>C9: \<open>doOpen\<close>\<close>

lemma Unbuffered_or_nonzero: "mode' OR Unbuffered \<noteq> NotOpen"
proof
  assume "mode' OR Unbuffered = NotOpen"
  then have "mode' OR Unbuffered = 0" by (simp add: NotOpen_def)
  then have "Unbuffered = 0" by (simp add: or_eq_0_iff)
  then show False by (simp add: Unbuffered_def)
qed

lemma doOpen_failure:
  "isOpen d \<or> invalid_descriptor p fd' handle' \<or> mode' AND ReadWrite = 0 \<Longrightarrow>
     doOpen p fd' handle' mode' d = (False, d)"
  by (auto simp: doOpen_def)

lemma doOpen_success:
  assumes "\<not> isOpen d" "\<not> invalid_descriptor p fd' handle'" "mode' AND ReadWrite \<noteq> 0"
  shows "doOpen p fd' handle' mode' d =
           (True, d\<lparr>fd := fd', handle := handle',
                     reader := (if mode' AND ReadOnly \<noteq> 0 then Some (new_Reader fd' handle') else None),
                     writer := (if mode' AND WriteOnly \<noteq> 0 then Some (new_Writer fd' handle') else None),
                     openMode := mode' OR Unbuffered\<rparr>)"
  using assms by (simp add: doOpen_def Let_def)

text \<open>
  C9, amended.  \<open>doOpen\<close> returns false and leaves the device unchanged (so it stays
  open when it was already open, and closed otherwise) whenever the device is already
  open, or the descriptor is invalid (\<open>fd < 0\<close> on POSIX, null handle on Windows), or the
  mode contains neither \<open>ReadOnly\<close> nor \<open>WriteOnly\<close>; otherwise it returns true, creates
  a Reader exactly when the mode includes \<open>ReadOnly\<close> and a Writer exactly when it
  includes \<open>WriteOnly\<close>, stores the descriptor and handle, and sets the open mode to the
  requested mode plus \<open>Unbuffered\<close>.
\<close>

theorem doOpen_contract:
  "(isOpen d \<or> invalid_descriptor p fd' handle' \<or> mode' AND ReadWrite = 0 \<longrightarrow>
      doOpen p fd' handle' mode' d = (False, d))
   \<and> (\<not> isOpen d \<and> \<not> invalid_descriptor p fd' handle' \<and> mode' AND ReadWrite \<noteq> 0 \<longrightarrow>
        fst (doOpen p fd' handle' mode' d) = True
        \<and> reader (snd (doOpen p fd' handle' mode' d)) =
            (if mode' AND ReadOnly \<noteq> 0 then Some (new_Reader fd' handle') else None)
        \<and> writer (snd (doOpen p fd' handle' mode' d)) =
            (if mode' AND WriteOnly \<noteq> 0 then Some (new_Writer fd' handle') else None)
        \<and> openMode (snd (doOpen p fd' handle' mode' d)) = mode' OR Unbuffered
        \<and> isOpen (snd (doOpen p fd' handle' mode' d))
        \<and> fd (snd (doOpen p fd' handle' mode' d)) = fd'
        \<and> handle (snd (doOpen p fd' handle' mode' d)) = handle')"
  by (auto simp: doOpen_failure doOpen_success isOpen_def Unbuffered_or_nonzero)

text \<open>
  C9, as stated, fails: a second \<open>doOpen\<close> on a device that is already open returns false
  and leaves the device unchanged, hence open and not closed.
\<close>

theorem doOpen_counterexample:
  "doOpen Posix 4 0 WriteOnly opened_for_reading = (False, opened_for_reading)
   \<and> isOpen (snd (doOpen Posix 4 0 WriteOnly opened_for_reading))"
  by (simp add: opened_for_reading_eq doOpen_def isOpen_def new_KDPipeIODevice_def NotOpen_def)

theorem doOpen_contract_witness:
  "isOpen opened_for_reading
   \<and> doOpen Posix 4 0 WriteOnly opened_for_reading = (False, opened_for_reading)
   \<and> \<not> isOpen new_KDPipeIODevice \<and> \<not> invalid_descriptor Posix 3 0 \<and> ReadOnly AND ReadWrite \<noteq> 0
   \<and> fst (doOpen Posix 3 0 ReadOnly new_KDPipeIODevice) = True
   \<and> reader (snd (doOpen Posix 3 0 ReadOnly new_KDPipeIODevice)) = Some (new_Reader 3 0)
   \<and> writer (snd (doOpen Posix 3 0 ReadOnly new_KDPipeIODevice)) = None
   \<and> openMode (snd (doOpen Posix 3 0 ReadOnly new_KDPipeIODevice)) = 0x21"
proof -
  have o: "isOpen opened_for_reading"
    by (simp add: opened_for_reading_eq isOpen_def new_KDPipeIODevice_def NotOpen_def)
  have c: "\<not> isOpen new_KDPipeIODevice" "\<not> invalid_descriptor Posix 3 0" "ReadOnly AND ReadWrite \<noteq> 0"
    by (simp_all add: isOpen_def new_KDPipeIODevice_def invalid_descriptor_def ReadOnly_def ReadWrite_def WriteOnly_def)
  have m: "ReadOnly AND ReadOnly \<noteq> 0" "ReadOnly AND WriteOnly = 0" "ReadOnly OR Unbuffered = 0x21"
    by (simp_all add: ReadOnly_def WriteOnly_def Unbuffered_def)
  from doOpen_contract [of opened_for_reading Posix 4 0 WriteOnly] o
  have f: "doOpen Posix 4 0 WriteOnly opened_for_reading = (False, opened_for_reading)" by blast
  from doOpen_contract [of new_KDPipeIODevice Posix 3 0 ReadOnly] c m
  have s: "fst (doOpen Posix 3 0 ReadOnly new_KDPipeIODevice) = True
      \<and> reader (snd (doOpen Posix 3 0 ReadOnly new_KDPipeIODevice)) = Some (new_Reader 3 0)
      \<and> writer (snd (doOpen Posix 3 0 ReadOnly new_KDPipeIODevice)) = None
      \<and> openMode (snd (doOpen Posix 3 0 ReadOnly new_KDPipeIODevice)) = 0x21"
    by simp
  from o f c s show ?thesis by simp
qed

section \<open>C7: \<open>writeData\<close>\<close>

lemma writer_startWriterThread:
  "writer d = Some w0 \<Longrightarrow>
     \<exists>w. writer (startWriterThread d) = Some w \<and> w_error w = w_error w0
         \<and> numBytesInBuffer w = numBytesInBuffer w0 \<and> w_buffer w = w_buffer w0"
  by (auto simp: startWriterThread_def Let_def)


lemma wait_bufferEmpty_result:
  "wait_bufferEmpty evs w = Some w' \<Longrightarrow> w_error w' \<or> Writer_bufferEmpty w'"
  by (induction evs w rule: wait_bufferEmpty.induct) (auto split: if_splits)






lemma startWriterThread_idem: "startWriterThread (startWriterThread d) = startWriterThread d"
  by (simp add: startWriterThread_def Let_def split: option.splits)





section \<open>C8: the reads issued by the Reader thread\<close>

lemma unread_write_disjoint:
  assumes "ptrs_ok r" "n \<le> BUFFER_SIZE - bytesInBuffer r" "wptr r + n \<le> sizeof_buffer"
  shows "unread_cells r \<inter> write_cells r n = {}"
proof -
  have "(rptr r + i) mod sizeof_buffer \<notin> {wptr r ..< wptr r + n}" if i: "i < bytesInBuffer r" for i
  proof (cases "rptr r \<le> wptr r")
    case True
    with assms(1) have b: "bytesInBuffer r = wptr r - rptr r"
      by (simp add: bytesInBuffer_def ptrs_ok_def ring_diff_le)
    with i True assms(1) have "rptr r + i < wptr r" "rptr r + i < sizeof_buffer"
      unfolding ptrs_ok_def by arith+
    then show ?thesis by simp
  next
    case False
    with assms(1) have b: "bytesInBuffer r = wptr r + sizeof_buffer - rptr r"
      by (simp add: bytesInBuffer_def ptrs_ok_def ring_diff_gt)
    with assms(2) False assms(1) have n: "wptr r + n < rptr r"
      by (simp add: sizeof_buffer_def ptrs_ok_def)
    show ?thesis
    proof (cases "rptr r + i < sizeof_buffer")
      case True
      with n show ?thesis by simp
    next
      case over: False
      with i b have "rptr r + i - sizeof_buffer < wptr r" by simp
      moreover have "(rptr r + i) mod sizeof_buffer = rptr r + i - sizeof_buffer"
      proof -
        from over have "rptr r + i = (rptr r + i - sizeof_buffer) + sizeof_buffer" by simp
        then have "(rptr r + i) mod sizeof_buffer = (rptr r + i - sizeof_buffer) mod sizeof_buffer"
          by (metis mod_add_self2)
        moreover from i bytesInBuffer_less [of r] assms(1)
        have "rptr r + i - sizeof_buffer < sizeof_buffer"
          unfolding ptrs_ok_def by arith
        ultimately show ?thesis by simp
      qed
      ultimately show ?thesis by simp
    qed
  qed
  then show ?thesis by (auto simp: unread_cells_def write_cells_def)
qed

lemma issue_read_in_bounds:
  assumes "ptrs_ok r" "\<not> bufferFull r" "issue_read r = (r', n)"
  shows "read_in_bounds (ReadIssued r' n)"
proof -
  define r1 where "r1 = (if rptr r = wptr r then r\<lparr>rptr := 0, wptr := 0\<rparr> else r)"
  have ok1: "ptrs_ok r1" using assms(1) by (simp add: r1_def ptrs_ok_def sizeof_buffer_pos)
  have bib: "bytesInBuffer r1 = bytesInBuffer r"
    by (simp add: r1_def bytesInBuffer_def)
  have nf: "\<not> bufferFull r1" using assms(2) bib by (simp add: bufferFull_def)
  let ?free = "BUFFER_SIZE - bytesInBuffer r1"
  from assms(3) have r': "r' = r1"
    and n: "n = (if ?free > sizeof_buffer - wptr r1 then sizeof_buffer - wptr r1 else ?free)"
    using free_space_Suc [OF ok1]
    by (auto simp: issue_read_def Let_def r1_def [symmetric])
  from ok1 have w: "0 < sizeof_buffer - wptr r1" by (simp add: ptrs_ok_def)
  from n w not_full_free [OF nf] have pos: "0 < n" by simp
  from n have le: "n \<le> ?free" by simp
  from n ok1 have fit: "wptr r1 + n \<le> sizeof_buffer"
    unfolding ptrs_ok_def by (cases "?free > sizeof_buffer - wptr r1") (simp, arith)
  from unread_write_disjoint [OF ok1 le fit] pos le fit r' show ?thesis by simp
qed

lemma wait_while_full_exit:
  "wait_while_full rounds r = Some (evs, r') \<Longrightarrow> cancel r' \<or> error r' \<or> \<not> bufferFull r'"
proof (induction rounds arbitrary: r evs)
  case Nil
  then show ?case by (auto split: if_splits)
next
  case (Cons round rounds)
  show ?case
  proof (cases "\<not> cancel r \<and> \<not> error r \<and> bufferFull r")
    case False
    with Cons.prems show ?thesis by auto
  next
    case True
    define r1 where "r1 = interfere (fst round) r"
    define r2 where "r2 = (if \<not> cancel r1 \<and> bufferFull r1 then interfere (snd round) r1 else r1)"
    from True have "wait_while_full (round # rounds) r =
        map_option (\<lambda>(evs, r'). (Notified r # evs, r')) (wait_while_full rounds r2)"
      by (simp add: r1_def r2_def Let_def)
    with Cons.prems obtain evs' where "wait_while_full rounds r2 = Some (evs', r')"
      by (cases "wait_while_full rounds r2") auto
    then show ?thesis by (rule Cons.IH)
  qed
qed

lemma wait_while_full_events:
  "wait_while_full rounds r = Some (evs, r') \<Longrightarrow> list_all read_in_bounds evs"
proof (induction rounds arbitrary: r evs)
  case Nil
  then show ?case by (auto split: if_splits)
next
  case (Cons round rounds)
  show ?case
  proof (cases "\<not> cancel r \<and> \<not> error r \<and> bufferFull r")
    case False
    with Cons.prems show ?thesis by auto
  next
    case True
    define r1 where "r1 = interfere (fst round) r"
    define r2 where "r2 = (if \<not> cancel r1 \<and> bufferFull r1 then interfere (snd round) r1 else r1)"
    from True have "wait_while_full (round # rounds) r =
        map_option (\<lambda>(evs, r'). (Notified r # evs, r')) (wait_while_full rounds r2)"
      by (simp add: r1_def r2_def Let_def)
    with Cons.prems obtain evs' where e: "wait_while_full rounds r2 = Some (evs', r')"
      and evs: "evs = Notified r # evs'"
      by (cases "wait_while_full rounds r2") auto
    from e have "list_all read_in_bounds evs'" by (rule Cons.IH)
    with evs show ?thesis by simp
  qed
qed

lemma notify_phase_events: "list_all read_in_bounds (fst (notify_phase env r))"
  by (simp add: notify_phase_def Let_def)

text \<open>
  C8.  In every run of the Reader thread that starts with both pointers inside the
  array (as \<open>new_Reader\<close> leaves them), whatever the consumer does meanwhile, every
  \<open>::read\<close> issued asks for a strictly positive number of bytes (the assertion
  \<open>numBytes > 0\<close> holds), for at most the free space of the ring buffer and at most the
  bytes up to the physical end of the array, and stores to no cell that holds an unread
  byte.
\<close>

theorem Reader_run_reads_in_bounds:
  "ptrs_ok r \<Longrightarrow> list_all read_in_bounds (Reader_run envs r)"
proof (induction envs arbitrary: r)
  case Nil
  then show ?case by simp
next
  case (Cons env envs)
  obtain evA rA where A: "notify_phase env r = (evA, rA)" by (cases "notify_phase env r")
  have evA: "list_all read_in_bounds evA" using notify_phase_events [of env r] A by simp
  have okA: "ptrs_ok rA" using ptrs_ok_notify_phase [OF Cons.prems, of env] A by simp
  show ?case
  proof (cases "wait_while_full (during_full env) rA")
    case None
    with A evA show ?thesis by simp
  next
    case (Some p)
    obtain evB rB where p: "p = (evB, rB)" by (cases p)
    with Some have B: "wait_while_full (during_full env) rA = Some (evB, rB)" by simp
    have evB: "list_all read_in_bounds evB" using B by (rule wait_while_full_events)
    have okB: "ptrs_ok rB" using okA B by (rule ptrs_ok_wait_while_full)
    have exitB: "cancel rB \<or> error rB \<or> \<not> bufferFull rB" using B by (rule wait_while_full_exit)
    show ?thesis
    proof (cases "cancel rB")
      case True
      with A B evA evB show ?thesis by simp
    next
      case nc: False
      show ?thesis
      proof (cases "\<not> eof rB \<and> \<not> error rB")
        case False
        with nc A B evA evB Cons.IH [OF okB] show ?thesis by auto
      next
        case True
        obtain rC n where C: "issue_read rB = (rC, n)" by (cases "issue_read rB")
        from True nc exitB have nf: "\<not> bufferFull rB" by simp
        have rd: "read_in_bounds (ReadIssued rC n)" using okB nf C by (rule issue_read_in_bounds)
        have okC: "ptrs_ok rC" using ptrs_ok_issue_read [OF okB] C by simp
        let ?next = "store_read (read_result env) n (interfere (during_read env) rC)"
        have "ptrs_ok ?next" using okC by (simp add: ptrs_ok_store_read ptrs_ok_interfere)
        then have "list_all read_in_bounds (Reader_run envs ?next)" by (rule Cons.IH)
        with True nc A B C evA evB rd show ?thesis by simp
      qed
    qed
  qed
qed

text \<open>
  A run that fills the buffer, has ten bytes consumed and fills it again: the free
  region of ten bytes wraps around the end of the array and takes two reads, of 1 and of
  9 bytes.
\<close>

lemma wrapping_run_requests:
  "read_requests (Reader_run [env_fill, env_drain, env_wrap] (new_Reader 3 0)) =
     [(0, 0, 4096), (10, 4096, 1), (10, 0, 9)]"
  by (simp add: env_fill_def env_drain_def env_wrap_def new_Reader_def notify_phase_def
      issue_read_def store_read_def interfere_def consumer_effect_def Reader_readData_def
      bytesInBuffer_def bufferFull_def bufferEmpty_def sizeof_buffer_def BUFFER_SIZE_def Let_def)

theorem Reader_run_reads_in_bounds_witness:
  "ptrs_ok (new_Reader 3 0)
   \<and> read_requests (Reader_run [env_fill, env_drain, env_wrap] (new_Reader 3 0)) =
       [(0, 0, 4096), (10, 4096, 1), (10, 0, 9)]
   \<and> list_all read_in_bounds (Reader_run [env_fill, env_drain, env_wrap] (new_Reader 3 0))"
proof -
  have h: "ptrs_ok (new_Reader 3 0)" by (rule ptrs_ok_new_Reader)
  from Reader_run_reads_in_bounds [OF h, of "[env_fill, env_drain, env_wrap]"] h
    wrapping_run_requests
  show ?thesis by (intro conjI)
qed

subsection \<open>While a read is pending\<close>

text \<open>
  The read is issued with the mutex released, so the consumer may call \<open>readData\<close>
  before the bytes arrive.  Such calls only move \<open>rptr\<close> forward over bytes that were
  unread: the unread cells shrink, \<open>wptr\<close> stays, and the cells the pending read stores
  to remain clear of unread bytes until the thread takes the mutex again.
\<close>

lemma bytesInBuffer_after_read:
  assumes "ptrs_ok r" "\<not> bufferEmpty r" "k \<le> contiguous r"
  shows "bytesInBuffer (r\<lparr>rptr := (rptr r + k) mod sizeof_buffer\<rparr>) = bytesInBuffer r - k"
proof -
  consider "rptr r < wptr r" | "wptr r < rptr r" | "rptr r = wptr r" by arith
  then show ?thesis
  proof cases
    case 1
    with assms(3) have k: "rptr r + k \<le> wptr r" by (simp add: contiguous_def)
    with assms(1) have "(rptr r + k) mod sizeof_buffer = rptr r + k" by (simp add: ptrs_ok_def)
    moreover from 1 assms(1) have "bytesInBuffer r = wptr r - rptr r"
      by (simp add: bytesInBuffer_def ptrs_ok_def ring_diff_le)
    moreover from k assms(1) have "(wptr r + sizeof_buffer - (rptr r + k)) mod sizeof_buffer = wptr r - (rptr r + k)"
      by (simp add: ptrs_ok_def ring_diff_le)
    ultimately show ?thesis by (simp add: bytesInBuffer_def)
  next
    case 2
    with assms(3) assms(1) have "k \<le> sizeof_buffer - rptr r" "rptr r < sizeof_buffer"
      by (simp_all add: contiguous_def ptrs_ok_def)
    then have k: "rptr r + k \<le> sizeof_buffer" by arith
    from 2 assms(1) have b: "bytesInBuffer r = wptr r + sizeof_buffer - rptr r"
      by (simp add: bytesInBuffer_def ptrs_ok_def ring_diff_gt)
    show ?thesis
    proof (cases "rptr r + k = sizeof_buffer")
      case True
      then have "(rptr r + k) mod sizeof_buffer = 0" by simp
      moreover from assms(1) have "(wptr r + sizeof_buffer - 0) mod sizeof_buffer = wptr r"
        by (simp add: ptrs_ok_def)
      ultimately show ?thesis using b True by (simp add: bytesInBuffer_def)
    next
      case False
      with k have lt: "rptr r + k < sizeof_buffer" by simp
      then have m: "(rptr r + k) mod sizeof_buffer = rptr r + k" by simp
      from 2 lt have "(wptr r + sizeof_buffer - (rptr r + k)) mod sizeof_buffer = wptr r + sizeof_buffer - (rptr r + k)"
        by (intro ring_diff_gt) simp_all
      with m b show ?thesis by (simp add: bytesInBuffer_def)
    qed
  next
    case 3
    with assms(2) show ?thesis by (simp add: bufferEmpty_def bytesInBuffer_def)
  qed
qed

lemma unread_cells_after_read:
  assumes "ptrs_ok r" "\<not> bufferEmpty r" "k \<le> contiguous r"
  shows "unread_cells (r\<lparr>rptr := (rptr r + k) mod sizeof_buffer\<rparr>) \<subseteq> unread_cells r"
proof
  fix c assume "c \<in> unread_cells (r\<lparr>rptr := (rptr r + k) mod sizeof_buffer\<rparr>)"
  then obtain i where i: "i < bytesInBuffer r - k"
    and c: "c = ((rptr r + k) mod sizeof_buffer + i) mod sizeof_buffer"
    by (auto simp: unread_cells_def bytesInBuffer_after_read [OF assms])
  from c have "c = (rptr r + (k + i)) mod sizeof_buffer"
    by (simp add: mod_add_left_eq add.assoc)
  moreover from i have "k + i < bytesInBuffer r" by simp
  ultimately show "c \<in> unread_cells r" by (auto simp: unread_cells_def)
qed

lemma consumer_effect_unread:
  assumes "ptrs_ok r"
  shows "unread_cells (consumer_effect s r) \<subseteq> unread_cells r \<and> wptr (consumer_effect s r) = wptr r"
proof (cases s)
  case (CReadData m)
  show ?thesis
  proof (cases "bufferEmpty r")
    case True
    with CReadData show ?thesis by (simp add: consumer_effect_def)
  next
    case False
    let ?k = "nat (min (max m 0) (int (contiguous r)))"
    have "?k \<le> contiguous r" by simp
    from unread_cells_after_read [OF assms False this] False CReadData
    show ?thesis by (simp add: consumer_effect_def Reader_readData_eq)
  qed
next
  case CShortCut
  then show ?thesis by (simp add: consumer_effect_def unread_cells_def bytesInBuffer_def)
next
  case (CBlocks b)
  then show ?thesis by (simp add: consumer_effect_def unread_cells_def bytesInBuffer_def)
next
  case CCancel
  then show ?thesis by (simp add: consumer_effect_def unread_cells_def bytesInBuffer_def)
qed

lemma interfere_unread:
  "ptrs_ok r \<Longrightarrow>
     unread_cells (interfere steps r) \<subseteq> unread_cells r \<and> wptr (interfere steps r) = wptr r"
  unfolding interfere_def
proof (induction steps arbitrary: r)
  case Nil
  then show ?case by simp
next
  case (Cons s steps)
  from Cons.prems have ok: "ptrs_ok (consumer_effect s r)" by (rule ptrs_ok_consumer_effect)
  from Cons.IH [OF ok] consumer_effect_unread [OF Cons.prems, of s]
  show ?case by auto
qed

lemma read_stays_clear:
  assumes "ptrs_ok r" "unread_cells r \<inter> write_cells r n = {}"
  shows "unread_cells (interfere steps r) \<inter> write_cells (interfere steps r) n = {}"
  using interfere_unread [OF assms(1), of steps] assms(2)
  by (auto simp: write_cells_def)

section \<open>C2: \<open>readData\<close>\<close>








section \<open>C6: \<open>atEnd\<close>\<close>

lemma QIODevice_atEnd_started:
  assumes "reader (startReaderThread d) = Some r"
  shows "QIODevice_atEnd (startReaderThread d) =
           (openMode d = NotOpen \<or> (qbuffer d = [] \<and> bufferEmpty r), startReaderThread d)"
  using assms
  by (auto simp: QIODevice_atEnd_def bytesAvailable_started startReaderThread_fields
      startReaderThread_tried bufferEmpty_def)

lemma atEnd_eq:
  assumes "isOpen d" "reader (startReaderThread d) = Some r"
  shows "atEnd d =
           Inr (qbuffer d = [] \<and> bufferEmpty r \<and> (eofShortCut r \<or> error r \<or> eof r),
                startReaderThread d)"
  using assms
  by (auto simp: atEnd_def startReaderThread_tried startReaderThread_fields
      QIODevice_atEnd_started isOpen_def)

text \<open>
  C6.  For an open device with a Reader, \<open>atEnd()\<close> returns true if and only if Eof or
  Error is latched and both the ring buffer and the generic \<open>QIODevice\<close> buffer are
  empty; with nothing latched it returns false even when \<open>bytesAvailable()\<close> is 0.
\<close>

theorem atEnd_contract:
  assumes "isOpen d" and "reader (startReaderThread d) = Some r" and "shortcut_ok r"
  shows "atEnd d = Inr ((eof r \<or> error r) \<and> bufferEmpty r \<and> qbuffer d = [], startReaderThread d)
       \<and> (\<not> eof r \<and> \<not> error r \<and> bufferEmpty r \<and> qbuffer d = [] \<longrightarrow>
            fst (bytesAvailable (startReaderThread d)) = 0
            \<and> atEnd d = Inr (False, startReaderThread d))"
proof -
  from assms(3) have "eofShortCut r \<longrightarrow> eof r \<or> error r" by (simp add: shortcut_ok_def)
  then have e: "(qbuffer d = [] \<and> bufferEmpty r \<and> (eofShortCut r \<or> error r \<or> eof r)) =
      ((eof r \<or> error r) \<and> bufferEmpty r \<and> qbuffer d = [])" by blast
  have a: "atEnd d = Inr ((eof r \<or> error r) \<and> bufferEmpty r \<and> qbuffer d = [], startReaderThread d)"
    using atEnd_eq [OF assms(1,2)] e by simp
  have "fst (bytesAvailable (startReaderThread d)) = 0" if "bufferEmpty r" "qbuffer d = []"
    using that by (simp add: bytesAvailable_started [OF assms(2)] bufferEmpty_def)
  with a show ?thesis by simp
qed

theorem atEnd_contract_witness:
  "isOpen opened_for_reading
   \<and> reader (startReaderThread opened_for_reading) = Some ((new_Reader 3 0)\<lparr>r_thread := Running\<rparr>)
   \<and> shortcut_ok ((new_Reader 3 0)\<lparr>r_thread := Running\<rparr>)
   \<and> fst (bytesAvailable (startReaderThread opened_for_reading)) = 0
   \<and> atEnd opened_for_reading = Inr (False, startReaderThread opened_for_reading)
   \<and> isOpen device_failed_read_once
   \<and> reader (startReaderThread device_failed_read_once) = Some (reader_failed\<lparr>eofShortCut := True\<rparr>)
   \<and> shortcut_ok (reader_failed\<lparr>eofShortCut := True\<rparr>)
   \<and> atEnd device_failed_read_once = Inr (True, device_failed_read_once)"
proof -
  let ?r = "(new_Reader 3 0)\<lparr>r_thread := Running\<rparr>"
  have s1: "shortcut_ok ?r" by (simp add: shortcut_ok_def new_Reader_def)
  have f1: "\<not> eof ?r" "\<not> error ?r" "bufferEmpty ?r"
    by (simp_all add: new_Reader_def bufferEmpty_def bytesInBuffer_def)
  from atEnd_contract [OF opened_for_reading_facts(1) opened_for_reading_reader s1] f1
    opened_for_reading_facts(2)
  have a: "fst (bytesAvailable (startReaderThread opened_for_reading)) = 0
      \<and> atEnd opened_for_reading = Inr (False, startReaderThread opened_for_reading)"
    by simp
  let ?q = "reader_failed\<lparr>eofShortCut := True\<rparr>"
  have s2: "shortcut_ok ?q" using reader_failed_fields by (simp add: shortcut_ok_def bufferEmpty_def bytesInBuffer_def)
  have f2: "error ?q" "bufferEmpty ?q"
    using reader_failed_fields by (simp_all add: bufferEmpty_def bytesInBuffer_def)
  from atEnd_contract [OF device_failed_read_once_facts(1,3) s2] f2 device_failed_read_once_facts(2,4)
  have b: "atEnd device_failed_read_once = Inr (True, device_failed_read_once)"
    by simp
  from a b s1 s2 show ?thesis
    by (simp add: opened_for_reading_facts opened_for_reading_reader device_failed_read_once_facts)
qed

section \<open>C3: server startup at an existing socket file\<close>

text \<open>
  C3, amended.  When \<open>makeListeningSocket\<close> finds a file at the configured path: if the
  trial connection fails, \<open>QFile::remove\<close> is called on the file, its result is dropped
  and the socket is bound at that path.  If the file could be deleted, binding succeeds:
  the server listens there and records the name as its actual socket name.  If the file
  could not be deleted, it is still there, binding fails and startup ends with the bind
  error, the server not listening.  If the trial connection succeeds, startup fails with
  the message ``Detected another running gnupg UI server listening at ...'', nothing is
  changed and the file is still there.
\<close>

theorem makeListeningSocket_startup:
  assumes "suggestedSocketName s \<in> files s"
  shows "(isStaleAssuanSocket s (suggestedSocketName s) \<longrightarrow>
            makeListeningSocket s =
              (case doMakeListeningSocket (suggestedSocketName s)
                      (snd (QFile_remove (suggestedSocketName s) s)) of
                 (s2, Some msg) \<Rightarrow> (s2, Some msg)
               | (s2, None) \<Rightarrow> (s2\<lparr>actualSocketName := suggestedSocketName s2\<rparr>, None))
            \<and> (suggestedSocketName s \<notin> undeletable s \<longrightarrow>
                  QFile_remove (suggestedSocketName s) s =
                    (True, s\<lparr>files := files s - {suggestedSocketName s}\<rparr>)
                  \<and> snd (makeListeningSocket s) = None
                  \<and> listening (fst (makeListeningSocket s))
                  \<and> suggestedSocketName s \<in> accepting (fst (makeListeningSocket s))
                  \<and> suggestedSocketName s \<in> files (fst (makeListeningSocket s))
                  \<and> actualSocketName (fst (makeListeningSocket s)) = suggestedSocketName s)
            \<and> (suggestedSocketName s \<in> undeletable s \<longrightarrow>
                  QFile_remove (suggestedSocketName s) s = (False, s)
                  \<and> makeListeningSocket s = (s, Some ''Could not bind to socket'')
                  \<and> suggestedSocketName s \<in> files (fst (makeListeningSocket s))))
       \<and> (\<not> isStaleAssuanSocket s (suggestedSocketName s) \<longrightarrow>
            makeListeningSocket s = (s, Some (already_running_message (suggestedSocketName s)))
            \<and> suggestedSocketName s \<in> files (fst (makeListeningSocket s)))"
  using assms
  by (auto simp: makeListeningSocket_def doMakeListeningSocket_def QFile_remove_def Let_def)

text \<open>
  C3, as stated, fails.  A stale socket file that this process may not unlink is not
  deleted, and the server does not come to listen: startup ends with the bind error and
  the file is still there.
\<close>

theorem makeListeningSocket_counterexample:
  "suggestedSocketName server_undeletable \<in> files server_undeletable
   \<and> isStaleAssuanSocket server_undeletable (suggestedSocketName server_undeletable)
   \<and> makeListeningSocket server_undeletable =
       (server_undeletable, Some ''Could not bind to socket'')
   \<and> \<not> listening (fst (makeListeningSocket server_undeletable))
   \<and> ''/run/S.uiserver'' \<in> files (fst (makeListeningSocket server_undeletable))"
  by (simp add: makeListeningSocket_def doMakeListeningSocket_def QFile_remove_def
      isStaleAssuanSocket_def server_undeletable_def server_stale_def Let_def)

theorem makeListeningSocket_startup_witness:
  "suggestedSocketName server_stale \<in> files server_stale
   \<and> isStaleAssuanSocket server_stale (suggestedSocketName server_stale)
   \<and> suggestedSocketName server_stale \<notin> undeletable server_stale
   \<and> snd (makeListeningSocket server_stale) = None
   \<and> listening (fst (makeListeningSocket server_stale))
   \<and> actualSocketName (fst (makeListeningSocket server_stale)) = ''/run/S.uiserver''
   \<and> ''/run/S.uiserver'' \<in> accepting (fst (makeListeningSocket server_stale))
   \<and> suggestedSocketName server_undeletable \<in> files server_undeletable
   \<and> isStaleAssuanSocket server_undeletable (suggestedSocketName server_undeletable)
   \<and> suggestedSocketName server_undeletable \<in> undeletable server_undeletable
   \<and> makeListeningSocket server_undeletable =
       (server_undeletable, Some ''Could not bind to socket'')
   \<and> suggestedSocketName server_conflict \<in> files server_conflict
   \<and> \<not> isStaleAssuanSocket server_conflict (suggestedSocketName server_conflict)
   \<and> makeListeningSocket server_conflict =
       (server_conflict,
        Some ''Detected another running gnupg UI server listening at /run/S.uiserver.'')"
proof -
  have a: "suggestedSocketName server_stale \<in> files server_stale"
    "isStaleAssuanSocket server_stale (suggestedSocketName server_stale)"
    "suggestedSocketName server_stale \<notin> undeletable server_stale"
    by (simp_all add: server_stale_def isStaleAssuanSocket_def)
  have u: "suggestedSocketName server_undeletable \<in> files server_undeletable"
    "isStaleAssuanSocket server_undeletable (suggestedSocketName server_undeletable)"
    "suggestedSocketName server_undeletable \<in> undeletable server_undeletable"
    by (simp_all add: server_undeletable_def server_stale_def isStaleAssuanSocket_def)
  have b: "suggestedSocketName server_conflict \<in> files server_conflict"
    "\<not> isStaleAssuanSocket server_conflict (suggestedSocketName server_conflict)"
    by (simp_all add: server_conflict_def server_stale_def isStaleAssuanSocket_def)
  have n: "suggestedSocketName server_stale = ''/run/S.uiserver''"
    "suggestedSocketName server_conflict = ''/run/S.uiserver''"
    by (simp_all add: server_conflict_def server_stale_def)
  from makeListeningSocket_startup [OF a(1)] a(2,3)
  have "snd (makeListeningSocket server_stale) = None
   \<and> listening (fst (makeListeningSocket server_stale))
   \<and> actualSocketName (fst (makeListeningSocket server_stale)) = suggestedSocketName server_stale
   \<and> suggestedSocketName server_stale \<in> accepting (fst (makeListeningSocket server_stale))"
    by blast
  then have c: "snd (makeListeningSocket server_stale) = None
   \<and> listening (fst (makeListeningSocket server_stale))
   \<and> actualSocketName (fst (makeListeningSocket server_stale)) = ''/run/S.uiserver''
   \<and> ''/run/S.uiserver'' \<in> accepting (fst (makeListeningSocket server_stale))"
    by (simp only: n)
  from makeListeningSocket_startup [OF u(1)] u(2,3)
  have e: "makeListeningSocket server_undeletable =
       (server_undeletable, Some ''Could not bind to socket'')"
    by blast
  from makeListeningSocket_startup [OF b(1)] b(2)
  have "makeListeningSocket server_conflict =
       (server_conflict, Some (already_running_message (suggestedSocketName server_conflict)))"
    by blast
  then have d: "makeListeningSocket server_conflict =
       (server_conflict,
        Some ''Detected another running gnupg UI server listening at /run/S.uiserver.'')"
    by (simp only: n) (simp add: already_running_message_def)
  from a u b c d e show ?thesis by blast
qed

section \<open>C4: the stopped state\<close>

lemma stop_fields:
  "connections (stop s) = connections s" "\<not> listening (stop s)"
  by (simp_all add: stop_def QFile_remove_def emit_if_stopped_def Let_def split: option.splits)

lemma stop_busy:
  assumes "connections s \<noteq> []"
  shows "events (stop s) = events s" "\<not> isStopped (stop s)" "isStopping (stop s)"
  using assms
  by (simp_all add: stop_def QFile_remove_def emit_if_stopped_def isStopped_def isStopping_def
      Let_def split: option.splits)

lemma slotConnectionClosed_fields:
  "connections (slotConnectionClosed c s) = filter (\<lambda>other. c \<noteq> other) (connections s)"
  "listening (slotConnectionClosed c s) = listening s"
  by (simp_all add: slotConnectionClosed_def emit_if_stopped_def)

lemma slotConnectionClosed_events:
  "events (slotConnectionClosed c s) =
     events s @ (if filter (\<lambda>other. c \<noteq> other) (connections s) = [] \<and> \<not> listening s
                 then [SessionDataCleared, StoppedEmitted] else [])"
  by (simp add: slotConnectionClosed_def emit_if_stopped_def isStopped_def)

lemma fold_closed_fields:
  "connections (fold slotConnectionClosed order s) = filter (\<lambda>c. c \<notin> set order) (connections s)"
  "listening (fold slotConnectionClosed order s) = listening s"
proof (induction order arbitrary: s)
  case Nil
  { case 1 show ?case by simp }
  { case 2 show ?case by simp }
next
  case (Cons c order)
  { case 1 show ?case by (auto simp: Cons.IH slotConnectionClosed_fields intro: filter_cong) }
  { case 2 show ?case by (simp add: Cons.IH slotConnectionClosed_fields) }
qed

lemma fold_closed_quiet:
  assumes "\<not> set (connections s) \<subseteq> set order"
  shows "events (fold slotConnectionClosed order s) = events s"
  using assms
proof (induction order arbitrary: s)
  case Nil
  then show ?case by simp
next
  case (Cons c order)
  from Cons.prems obtain x where x: "x \<in> set (connections s)" "x \<noteq> c" "x \<notin> set order" by auto
  then have ne: "filter (\<lambda>other. c \<noteq> other) (connections s) \<noteq> []"
    by (auto simp: filter_empty_conv)
  from x have "\<not> set (connections (slotConnectionClosed c s)) \<subseteq> set order"
    by (auto simp: slotConnectionClosed_fields)
  then have "events (fold slotConnectionClosed order (slotConnectionClosed c s)) =
      events (slotConnectionClosed c s)" by (rule Cons.IH)
  with ne show ?case by (simp add: slotConnectionClosed_events)
qed

lemma fold_closed_last:
  assumes "\<not> listening s" "set (connections s) \<subseteq> set (order @ [c])" "c \<in> set (connections s)"
    "c \<notin> set order"
  shows "events (fold slotConnectionClosed (order @ [c]) s) =
           events s @ [SessionDataCleared, StoppedEmitted]"
proof -
  let ?s = "fold slotConnectionClosed order s"
  from assms(3,4) have "\<not> set (connections s) \<subseteq> set order" by auto
  then have q: "events ?s = events s" by (rule fold_closed_quiet)
  have l: "\<not> listening ?s" using assms(1) by (simp add: fold_closed_fields)
  from assms(2) have "filter (\<lambda>other. c \<noteq> other) (connections ?s) = []"
    by (auto simp: fold_closed_fields filter_empty_conv)
  with q l show ?thesis by (simp add: slotConnectionClosed_events)
qed

text \<open>
  C4.  \<open>isStopped\<close> holds exactly when the connection list is empty and the server is
  not listening.  After \<open>stop()\<close> on a server with live connections the server is not
  stopped and no signal has been emitted; as the connections close, in any order, it
  stays so while one is left; the close of the last one makes it stopped and is the one
  that clears the session data and emits \<open>stopped\<close>, once.
\<close>

theorem stopped_after_last_connection:
  assumes "connections s \<noteq> []" and "distinct (order @ [c])"
      and "set (order @ [c]) = set (connections s)"
  shows "isStopped x = (connections x = [] \<and> \<not> listening x)
       \<and> \<not> isStopped (stop s) \<and> events (stop s) = events s
       \<and> (\<forall>k \<le> length order.
             \<not> isStopped (fold slotConnectionClosed (take k order) (stop s))
             \<and> events (fold slotConnectionClosed (take k order) (stop s)) = events s)
       \<and> isStopped (fold slotConnectionClosed (order @ [c]) (stop s))
       \<and> events (fold slotConnectionClosed (order @ [c]) (stop s)) =
           events s @ [SessionDataCleared, StoppedEmitted]"
proof (intro conjI allI impI)
  show "isStopped x = (connections x = [] \<and> \<not> listening x)" by (simp add: isStopped_def)
  show "\<not> isStopped (stop s)" using assms(1) by (rule stop_busy)
  show "events (stop s) = events s" using assms(1) by (rule stop_busy)
next
  fix k assume "k \<le> length order"
  from assms(2,3) have c: "c \<in> set (connections (stop s))" "c \<notin> set (take k order)"
    by (auto simp: stop_fields dest: in_set_takeD)
  then have n: "\<not> set (connections (stop s)) \<subseteq> set (take k order)" by auto
  from c show "\<not> isStopped (fold slotConnectionClosed (take k order) (stop s))"
    by (auto simp: isStopped_def fold_closed_fields filter_empty_conv)
  from n have "events (fold slotConnectionClosed (take k order) (stop s)) = events (stop s)"
    by (rule fold_closed_quiet)
  then show "events (fold slotConnectionClosed (take k order) (stop s)) = events s"
    using assms(1) by (simp add: stop_busy)
next
  have "connections (fold slotConnectionClosed (order @ [c]) (stop s)) =
      filter (\<lambda>x. x \<notin> set (order @ [c])) (connections (stop s))"
    by (rule fold_closed_fields)
  with assms(3) have "connections (fold slotConnectionClosed (order @ [c]) (stop s)) = []"
    by (simp add: stop_fields filter_empty_conv)
  moreover have "\<not> listening (fold slotConnectionClosed (order @ [c]) (stop s))"
    by (simp only: fold_closed_fields stop_fields) simp
  ultimately show "isStopped (fold slotConnectionClosed (order @ [c]) (stop s))"
    by (simp only: isStopped_def) simp
  have "events (fold slotConnectionClosed (order @ [c]) (stop s)) =
      events (stop s) @ [SessionDataCleared, StoppedEmitted]"
    using assms(2,3) by (intro fold_closed_last) (auto simp: stop_fields)
  then show "events (fold slotConnectionClosed (order @ [c]) (stop s)) =
      events s @ [SessionDataCleared, StoppedEmitted]"
    using assms(1) by (simp add: stop_busy)
qed

theorem stopped_after_last_connection_witness:
  "connections server_busy \<noteq> [] \<and> distinct ([2, 3] @ [1::nat])
   \<and> set ([2, 3] @ [1]) = set (connections server_busy)
   \<and> \<not> isStopped (stop server_busy) \<and> events (stop server_busy) = []
   \<and> \<not> isStopped (fold slotConnectionClosed [2, 3] (stop server_busy))
   \<and> events (fold slotConnectionClosed [2, 3] (stop server_busy)) = []
   \<and> isStopped (fold slotConnectionClosed [2, 3, 1] (stop server_busy))
   \<and> events (fold slotConnectionClosed [2, 3, 1] (stop server_busy)) =
       [SessionDataCleared, StoppedEmitted]"
proof -
  have a: "connections server_busy \<noteq> []" "distinct ([2, 3] @ [1::nat])"
    "set ([2, 3] @ [1]) = set (connections server_busy)"
    by (auto simp: server_busy_def)
  have e: "events server_busy = []" by (simp add: server_busy_def)
  note th = stopped_after_last_connection [OF a]
  from th have 1: "\<not> isStopped (stop server_busy)" "events (stop server_busy) = events server_busy"
    by blast+
  from th have "\<forall>k \<le> length [2::nat, 3].
             \<not> isStopped (fold slotConnectionClosed (take k [2, 3]) (stop server_busy))
             \<and> events (fold slotConnectionClosed (take k [2, 3]) (stop server_busy)) = events server_busy"
    by blast
  from this [rule_format, of 2]
  have 2: "\<not> isStopped (fold slotConnectionClosed [2, 3] (stop server_busy))"
    "events (fold slotConnectionClosed [2, 3] (stop server_busy)) = events server_busy"
    by simp_all
  from th have "isStopped (fold slotConnectionClosed ([2, 3] @ [1]) (stop server_busy))"
    "events (fold slotConnectionClosed ([2, 3] @ [1]) (stop server_busy)) =
           events server_busy @ [SessionDataCleared, StoppedEmitted]"
    by blast+
  then have 3: "isStopped (fold slotConnectionClosed [2, 3, 1] (stop server_busy))"
    "events (fold slotConnectionClosed [2, 3, 1] (stop server_busy)) =
           events server_busy @ [SessionDataCleared, StoppedEmitted]"
    by simp_all
  from a 1 2 3 show ?thesis by (simp only: e append_Nil) blast
qed

section \<open>C5: how an exchange ends\<close>

lemma transact_transcript:
  "transact env line x = (resp, x') \<Longrightarrow>
     transcript x' = transcript x @ [(line, status resp)] \<and> out x' = out x
     \<and> inquire_sent x' = inquire_sent x"
  by (auto simp: transact_def Let_def)

lemma send_option_step:
  "send_option env name val x = (err, x') \<Longrightarrow>
     out x' = out x \<and> transcript x' \<noteq> [] \<and> snd (last (transcript x')) = err"
  by (auto simp: send_option_def transact_def Let_def split: prod.splits)

lemma send_file_step:
  "send_file env f x = (err, x') \<Longrightarrow>
     out x' = out x \<and> transcript x' \<noteq> [] \<and> snd (last (transcript x')) = err"
  by (auto simp: send_file_def transact_def Let_def split: prod.splits)

lemma send_sender_step:
  "send_sender env f info x = (err, x') \<Longrightarrow>
     out x' = out x \<and> transcript x' \<noteq> [] \<and> snd (last (transcript x')) = err"
  by (auto simp: send_sender_def transact_def Let_def split: prod.splits)

lemma send_recipient_step:
  "send_recipient env f info x = (err, x') \<Longrightarrow>
     out x' = out x \<and> transcript x' \<noteq> [] \<and> snd (last (transcript x')) = err"
  by (auto simp: send_recipient_def transact_def Let_def split: prod.splits)

lemma fail_with_fields:
  "errorString (out (fail_with msg x)) = msg" "canceled (out (fail_with msg x)) = canceled (out x)"
  "transcript (fail_with msg x) = transcript x"
  by (simp_all add: fail_with_def)

lemma send_options_ok: "\<not> canceled (out x) \<Longrightarrow> loop_ok x (send_options env opts x)"
proof (induction opts arbitrary: x)
  case Nil
  then show ?case by (simp add: loop_ok_def)
next
  case (Cons a opts)
  obtain name opt where a: "a = (name, opt)" by (cases a)
  obtain err x' where s: "send_option env name
             (if hasValue opt then Variant (qvariant_toString (opt_value opt)) else InvalidVariant) x = (err, x')"
    by (cases "send_option env name
             (if hasValue opt then Variant (qvariant_toString (opt_value opt)) else InvalidVariant) x")
  note st = send_option_step [OF s]
  show ?case
  proof (cases "err \<noteq> 0 \<and> isCritical opt")
    case True
    with a s st Cons.prems show ?thesis
      by (simp add: loop_ok_def ended_in_error_def fail_with_fields)
  next
    case False
    from st Cons.prems have "\<not> canceled (out x')" by simp
    then have "loop_ok x' (send_options env opts x')" by (rule Cons.IH)
    with False a s st show ?thesis by (auto simp: loop_ok_def)
  qed
qed

lemma send_files_ok: "\<not> canceled (out x) \<Longrightarrow> loop_ok x (send_files env fs x)"
proof (induction fs arbitrary: x)
  case Nil
  then show ?case by (simp add: loop_ok_def)
next
  case (Cons f fs)
  obtain err x' where s: "send_file env f x = (err, x')" by (cases "send_file env f x")
  note st = send_file_step [OF s]
  show ?case
  proof (cases "err \<noteq> 0")
    case True
    with s st Cons.prems show ?thesis
      by (simp add: loop_ok_def ended_in_error_def fail_with_fields)
  next
    case False
    from st Cons.prems have "\<not> canceled (out x')" by simp
    then have "loop_ok x' (send_files env fs x')" by (rule Cons.IH)
    with False s st show ?thesis by (auto simp: loop_ok_def)
  qed
qed

lemma send_senders_ok: "\<not> canceled (out x) \<Longrightarrow> loop_ok x (send_senders env info fs x)"
proof (induction fs arbitrary: x)
  case Nil
  then show ?case by (simp add: loop_ok_def)
next
  case (Cons f fs)
  obtain err x' where s: "send_sender env f info x = (err, x')" by (cases "send_sender env f info x")
  note st = send_sender_step [OF s]
  show ?case
  proof (cases "err \<noteq> 0")
    case True
    with s st Cons.prems show ?thesis
      by (simp add: loop_ok_def ended_in_error_def fail_with_fields)
  next
    case False
    from st Cons.prems have "\<not> canceled (out x')" by simp
    then have "loop_ok x' (send_senders env info fs x')" by (rule Cons.IH)
    with False s st show ?thesis by (auto simp: loop_ok_def)
  qed
qed

lemma send_recipients_ok: "\<not> canceled (out x) \<Longrightarrow> loop_ok x (send_recipients env info fs x)"
proof (induction fs arbitrary: x)
  case Nil
  then show ?case by (simp add: loop_ok_def)
next
  case (Cons f fs)
  obtain err x' where s: "send_recipient env f info x = (err, x')" by (cases "send_recipient env f info x")
  note st = send_recipient_step [OF s]
  show ?case
  proof (cases "err \<noteq> 0")
    case True
    with s st Cons.prems show ?thesis
      by (simp add: loop_ok_def ended_in_error_def fail_with_fields)
  next
    case False
    from st Cons.prems have "\<not> canceled (out x')" by simp
    then have "loop_ok x' (send_recipients env info fs x')" by (rule Cons.IH)
    with False s st show ?thesis by (auto simp: loop_ok_def)
  qed
qed

lemma send_command_result:
  assumes "succeeded (out x)"
  shows "(status (peer env (map fst (transcript x)) (command ins)) = 0 \<longrightarrow>
            succeeded (out (send_command env ins x)))
       \<and> (status (peer env (map fst (transcript x)) (command ins)) \<noteq> 0
            \<and> gpg_err_code (status (peer env (map fst (transcript x)) (command ins))) = GPG_ERR_CANCELED \<longrightarrow>
            ended_canceled (out (send_command env ins x)))
       \<and> (status (peer env (map fst (transcript x)) (command ins)) \<noteq> 0
            \<and> gpg_err_code (status (peer env (map fst (transcript x)) (command ins))) \<noteq> GPG_ERR_CANCELED \<longrightarrow>
            ended_in_error (out (send_command env ins x)))
       \<and> transcript (send_command env ins x) =
            transcript x @ [(command ins, status (peer env (map fst (transcript x)) (command ins)))]"
  using assms
  by (simp add: send_command_def transact_def Let_def succeeded_def ended_canceled_def
      ended_in_error_def fail_with_def)

lemma send_command_settled:
  assumes "succeeded (out x)"
  shows "settled ins (send_command env ins x)"
  using send_command_result [OF assms, of env ins] assms
  by (cases "status (peer env (map fst (transcript x)) (command ins)) = 0";
      cases "gpg_err_code (status (peer env (map fst (transcript x)) (command ins))) = GPG_ERR_CANCELED")
     (auto simp: settled_def stopped_at_failure_def succeeded_def ended_canceled_def ended_in_error_def)

lemma loop_failed_settled:
  assumes "loop_ok x r" "fst r"
  shows "settled ins (snd r)"
  using assms
  by (auto simp: loop_ok_def settled_def stopped_at_failure_def succeeded_def ended_canceled_def
      ended_in_error_def)

lemma loop_passed:
  assumes "loop_ok x r" "\<not> fst r"
  shows "out (snd r) = out x"
  using assms by (simp add: loop_ok_def)

lemma fail_settled:
  assumes "msg \<noteq> []" "\<not> canceled (out x)" "stopped_at_failure x"
  shows "settled ins (fail_with msg x)"
  using assms
  by (simp add: settled_def stopped_at_failure_def succeeded_def ended_canceled_def
      ended_in_error_def fail_with_def)

lemma converse_settled:
  assumes "succeeded (out x0)"
  shows "settled ins (converse env ins x0)"
proof -
  let ?x0 = "x0\<lparr>out := (out x0)\<lparr>serverPid := -1\<rparr>\<rparr>"
  obtain resp x1 where t: "transact env ''GETINFO pid'' ?x0 = (resp, x1)"
    by (cases "transact env ''GETINFO pid'' ?x0")
  note t1 = transact_transcript [OF t]
  define x2 where "x2 = x1\<lparr>out := (out x1)\<lparr>serverPid :=
                     fold (\<lambda>line pid. toLongLong env line) (payload resp) (serverPid (out x1))\<rparr>\<rparr>"
  from assms t1 have s2: "succeeded (out x2)" "transcript x2 \<noteq> []"
    "fst (last (transcript x2)) = ''GETINFO pid''"
    by (simp_all add: x2_def succeeded_def)
  show ?thesis
  proof (cases "status resp \<noteq> 0 \<or> serverPid (out x2) \<le> 0")
    case True
    have "converse env ins x0 = fail_with (''Could not get the process-id of the Kleopatra UI server at ''
                   @ serverLocation (out x2) @ '': '' @ to_error_string env (status resp)) x2"
      unfolding converse_def t prod.case Let_def x2_def [symmetric]
      using True by (simp only: if_True)
    moreover from s2 have "\<not> canceled (out x2)" "stopped_at_failure x2"
      by (simp_all add: succeeded_def stopped_at_failure_def)
    ultimately show ?thesis by (simp add: fail_settled)
  next
    case ok: False
    show ?thesis
    proof (cases "command ins = []")
      case True
      have "converse env ins x0 = x2"
        unfolding converse_def t prod.case Let_def x2_def [symmetric]
        using ok True by (simp only: if_True if_False simp_thms)
      with s2 show ?thesis by (simp add: settled_def succeeded_def ended_canceled_def ended_in_error_def)
    next
      case cmd: False
      define x3 where "x3 = (if parentWId ins \<noteq> 0
                       then snd (send_option env ''window-id''
                                   (Variant (hex_lower (parentWId ins))) x2)
                       else x2)"
      have o3: "out x3 = out x2"
        using send_option_step [of env "''window-id''" "Variant (hex_lower (parentWId ins))" x2]
        by (cases "send_option env ''window-id'' (Variant (hex_lower (parentWId ins))) x2")
           (simp add: x3_def)
      with s2 have nc3: "\<not> canceled (out x3)" by (simp add: succeeded_def)
      define r4 where "r4 = send_options env (options ins) x3"
      have l4: "loop_ok x3 r4" unfolding r4_def using nc3 by (rule send_options_ok)
      define r5 where "r5 = send_files env (filePaths ins) (snd r4)"
      define r6 where "r6 = send_senders env (areSendersInformative ins) (senders ins) (snd r5)"
      define r7 where "r7 = send_recipients env (areRecipientsInformative ins) (recipients ins) (snd r6)"
      have pre: "converse env ins x0 =
          (case send_options env (options ins) x3 of
                  (True, x4) \<Rightarrow> x4
                | (False, x4) \<Rightarrow>
                    (case send_files env (filePaths ins) x4 of
                       (True, x5) \<Rightarrow> x5
                     | (False, x5) \<Rightarrow>
                         (case send_senders env (areSendersInformative ins) (senders ins) x5 of
                            (True, x6) \<Rightarrow> x6
                          | (False, x6) \<Rightarrow>
                              (case send_recipients env (areRecipientsInformative ins)
                                      (recipients ins) x6 of
                                 (True, x7) \<Rightarrow> x7
                               | (False, x7) \<Rightarrow> send_command env ins x7))))"
        unfolding converse_def t prod.case Let_def x2_def [symmetric] x3_def [symmetric]
        using ok cmd by (simp only: if_False)
      have e4: "send_options env (options ins) x3 = (fst r4, snd r4)" by (simp add: r4_def)
      have e5: "send_files env (filePaths ins) (snd r4) = (fst r5, snd r5)" by (simp add: r5_def)
      have e6: "send_senders env (areSendersInformative ins) (senders ins) (snd r5) = (fst r6, snd r6)"
        by (simp add: r6_def)
      have e7: "send_recipients env (areRecipientsInformative ins) (recipients ins) (snd r6) = (fst r7, snd r7)"
        by (simp add: r7_def)
      have c4: "converse env ins x0 = snd r4" if "fst r4"
        using that by (simp only: pre e4 prod.case bool.case)
      have c5: "converse env ins x0 = snd r5" if "\<not> fst r4" "fst r5"
        using that by (simp only: pre e4 e5 prod.case bool.case)
      have c6: "converse env ins x0 = snd r6" if "\<not> fst r4" "\<not> fst r5" "fst r6"
        using that by (simp only: pre e4 e5 e6 prod.case bool.case)
      have c7: "converse env ins x0 = snd r7" if "\<not> fst r4" "\<not> fst r5" "\<not> fst r6" "fst r7"
        using that by (simp only: pre e4 e5 e6 e7 prod.case bool.case)
      have c8: "converse env ins x0 = send_command env ins (snd r7)"
        if "\<not> fst r4" "\<not> fst r5" "\<not> fst r6" "\<not> fst r7"
        using that by (simp only: pre e4 e5 e6 e7 prod.case bool.case)
      show ?thesis
      proof (cases "fst r4")
        case True
        with c4 l4 show ?thesis by (simp add: loop_failed_settled)
      next
        case f4: False
        with l4 o3 have o4: "out (snd r4) = out x2" by (simp add: loop_passed)
        with s2 have "\<not> canceled (out (snd r4))" by (simp add: succeeded_def)
        then have l5: "loop_ok (snd r4) r5" unfolding r5_def by (rule send_files_ok)
        show ?thesis
        proof (cases "fst r5")
          case True
          with c5 f4 l5 show ?thesis by (simp add: loop_failed_settled)
        next
          case f5: False
          with l5 o4 have o5: "out (snd r5) = out x2" by (simp add: loop_passed)
          with s2 have "\<not> canceled (out (snd r5))" by (simp add: succeeded_def)
          then have l6: "loop_ok (snd r5) r6" unfolding r6_def by (rule send_senders_ok)
          show ?thesis
          proof (cases "fst r6")
            case True
            with c6 f4 f5 l6 show ?thesis by (simp add: loop_failed_settled)
          next
            case f6: False
            with l6 o5 have o6: "out (snd r6) = out x2" by (simp add: loop_passed)
            with s2 have "\<not> canceled (out (snd r6))" by (simp add: succeeded_def)
            then have l7: "loop_ok (snd r6) r7" unfolding r7_def by (rule send_recipients_ok)
            show ?thesis
            proof (cases "fst r7")
              case True
              with c7 f4 f5 f6 l7 show ?thesis by (simp add: loop_failed_settled)
            next
              case f7: False
              with l7 o6 have "out (snd r7) = out x2" by (simp add: loop_passed)
              with s2 have "succeeded (out (snd r7))" by simp
              then have "settled ins (send_command env ins (snd r7))" by (rule send_command_settled)
              with c8 f4 f5 f6 f7 show ?thesis by simp
            qed
          qed
        qed
      qed
    qed
  qed
qed

lemma connect_and_converse_settled:
  assumes "succeeded (out x0)" "transcript x0 = []"
  shows "settled ins (connect_and_converse env ins x0)"
proof -
  from assms have s0: "\<not> canceled (out x0)" "stopped_at_failure x0"
    by (simp_all add: succeeded_def stopped_at_failure_def)
  have f: "settled ins (fail_with msg x0)" if "msg \<noteq> []" for msg
    using that s0 by (simp add: fail_settled)
  have c: "settled ins (converse env ins x0)" using assms(1) by (rule converse_settled)
  show ?thesis by (simp add: connect_and_converse_def Let_def f c)
qed

lemma run_exchange:
  "snd (run env c) =
     connect_and_converse env (inputs c)
       \<lparr>out = new_Outputs\<lparr>serverLocation := default_socket_name env\<rparr>,
        transcript = [], inquire_sent = []\<rparr>"
  by (simp add: run_def Let_def new_Outputs_def)

lemma run_settled: "settled (inputs c) (snd (run env c))"
proof -
  let ?x0 = "\<lparr>out = new_Outputs\<lparr>serverLocation := default_socket_name env\<rparr>,
        transcript = [], inquire_sent = []\<rparr>"
  have "succeeded (out ?x0)" by (simp add: succeeded_def new_Outputs_def)
  moreover have "transcript ?x0 = []" by simp
  ultimately have "settled (inputs c) (connect_and_converse env (inputs c) ?x0)"
    by (rule connect_and_converse_settled)
  then show ?thesis by (simp only: run_exchange)
qed

lemma run_outputs: "outputs (fst (run env c)) = out (snd (run env c))"
  by (simp add: run_def Let_def)

lemmas run_defs =
  run_def connect_and_converse_def converse_def send_command_def send_option_def send_file_def
  send_sender_def send_recipient_def transact_def fail_with_def new_Outputs_def
  sample_env_def canceling_peer_def command_with_def plain_option_def
  hexencode_char_def shell_special_def byte_val_def hex_def

lemma canceled_file_run:
  "run sample_env (command_with [] [''a b''] ''DECRYPT'') =
     ((command_with [] [''a b''] ''DECRYPT'')\<lparr>outputs :=
         \<lparr>errorString = ''Failed to send file path a b: Operation cancelled'', canceled = False,
          data = [], serverPid = 4711, serverLocation = ''/run/S.uiserver''\<rparr>\<rparr>,
      \<lparr>out = \<lparr>errorString = ''Failed to send file path a b: Operation cancelled'',
               canceled = False, data = [], serverPid = 4711,
               serverLocation = ''/run/S.uiserver''\<rparr>,
       transcript = [(''GETINFO pid'', 0), (''FILE a+b'', 0x05000063)], inquire_sent = []\<rparr>)"
  by (simp add: run_defs Let_def)

lemma canceled_option_run:
  "run sample_env (command_with [(''foo'', plain_option)] [] ''DECRYPT'') =
     ((command_with [(''foo'', plain_option)] [] ''DECRYPT'')\<lparr>outputs :=
         \<lparr>errorString = [], canceled = False,
          data = ''done'', serverPid = 4711, serverLocation = ''/run/S.uiserver''\<rparr>\<rparr>,
      \<lparr>out = \<lparr>errorString = [], canceled = False, data = ''done'', serverPid = 4711,
               serverLocation = ''/run/S.uiserver''\<rparr>,
       transcript = [(''GETINFO pid'', 0), (''OPTION foo'', 0x05000063), (''DECRYPT'', 0)],
       inquire_sent = []\<rparr>)"
  by (simp add: run_defs Let_def)

lemma canceled_command_run:
  "run sample_env (command_with [] [] ''CANCEL_ME'') =
     ((command_with [] [] ''CANCEL_ME'')\<lparr>outputs :=
         \<lparr>errorString = [], canceled = True,
          data = [], serverPid = 4711, serverLocation = ''/run/S.uiserver''\<rparr>\<rparr>,
      \<lparr>out = \<lparr>errorString = [], canceled = True, data = [], serverPid = 4711,
               serverLocation = ''/run/S.uiserver''\<rparr>,
       transcript = [(''GETINFO pid'', 0), (''CANCEL_ME'', 0x05000063)],
       inquire_sent = []\<rparr>)"
  by (simp add: run_defs Let_def gpg_err_code_def GPG_ERR_CANCELED_def)

lemma sample_status_canceled: "gpg_err_code 0x05000063 = GPG_ERR_CANCELED"
  by (simp add: gpg_err_code_def GPG_ERR_CANCELED_def)

lemma retry_connect_zero:
  "retry_connect env i k err = 0 \<longleftrightarrow>
     err = 0 \<or> (\<exists>j \<in> {Suc i..i + k}. connect_status env j = 0)"
proof (induction k arbitrary: i err)
  case 0
  then show ?case by simp
next
  case (Suc k)
  show ?case
  proof (cases "err = 0")
    case True
    then show ?thesis by simp
  next
    case False
    have "{Suc i..i + Suc k} = insert (Suc i) {Suc (Suc i)..Suc i + k}" by auto
    with False Suc.IH [of "Suc i" "connect_status env (Suc i)"] show ?thesis by simp
  qed
qed

lemma connection_made_iff:
  "connection_made env \<longleftrightarrow>
     default_socket_name env \<noteq> [] \<and> assuan_new_status env = 0
     \<and> \<not> (connect_status env 0 \<noteq> 0 \<and> start_uiserver_result env \<noteq> [])
     \<and> (if connect_status env 0 \<noteq> 0 then retry_connect env 0 20 (connect_status env 0)
         else connect_status env 0) = 0"
proof -
  have r: "retry_connect env 0 20 (connect_status env 0) = 0 \<longleftrightarrow>
      connect_status env 0 = 0 \<or> (\<exists>i \<in> {1..20}. connect_status env i = 0)"
    using retry_connect_zero [of env 0 20 "connect_status env 0"] by simp
  show ?thesis
  proof (cases "connect_status env 0 = 0")
    case True
    then show ?thesis by (simp add: connection_made_def)
  next
    case False
    with r show ?thesis by (simp only: connection_made_def if_True simp_thms)
  qed
qed

lemma expected_exchange_append:
  "expected_exchange env (before @ after) sent =
     (case expected_exchange env before sent of
        (Completed, sent') \<Rightarrow> expected_exchange env after sent'
      | r \<Rightarrow> r)"
proof (induction before arbitrary: sent)
  case Nil
  then show ?case by simp
next
  case (Cons step before)
  obtain line sev where s: "step = (line, sev)" by (cases step)
  show ?case by (simp add: s Let_def Cons.IH)
qed

lemma expected_exchange_extends:
  "\<exists>more. snd (expected_exchange env steps sent) = sent @ more \<and> (steps \<noteq> [] \<longrightarrow> more \<noteq> [])"
proof (induction steps arbitrary: sent)
  case Nil
  then show ?case by simp
next
  case (Cons step steps)
  obtain line sev where s: "step = (line, sev)" by (cases step)
  let ?st = "status (peer env (map fst sent) line)"
  from Cons.IH [of "sent @ [(line, ?st)]"]
  obtain more where "snd (expected_exchange env steps (sent @ [(line, ?st)])) = sent @ (line, ?st) # more"
    by auto
  then show ?case by (auto simp: s Let_def)
qed

lemma send_options_expected:
  "expected_exchange env (map option_step opts @ rest) (transcript x) =
     (if fst (send_options env opts x)
      then (Aborted, transcript (snd (send_options env opts x)))
      else expected_exchange env rest (transcript (snd (send_options env opts x))))"
proof (induction opts arbitrary: x)
  case Nil
  then show ?case by simp
next
  case (Cons a opts)
  obtain name opt where a: "a = (name, opt)" by (cases a)
  define val where
    "val = (if hasValue opt then Variant (qvariant_toString (opt_value opt)) else InvalidVariant)"
  define line where "line = option_line name val"
  define st where "st = status (peer env (map fst (transcript x)) line)"
  define x' where "x' = x\<lparr>transcript := transcript x @ [(line, st)]\<rparr>"
  have s: "send_option env name val x = (st, x')"
    by (simp add: send_option_def transact_def option_line_def Let_def line_def st_def x'_def)
  have o: "option_step (name, opt) = (line, if isCritical opt then Aborting else Ignored)"
    by (simp add: option_step_def line_def val_def)
  have t: "transcript x' = transcript x @ [(line, st)]" by (simp add: x'_def)
  define fatal where "fatal \<longleftrightarrow> st \<noteq> 0 \<and> isCritical opt"
  have l: "send_options env (a # opts) x =
      (if fatal
       then (True, fail_with (''Failed to send critical option '' @ name @ '': ''
                                @ to_error_string env st) x')
       else send_options env opts x')"
    unfolding a send_options.simps val_def [symmetric] s fatal_def by simp
  have e: "expected_exchange env (map option_step (a # opts) @ rest) (transcript x) =
      (if fatal then (Aborted, transcript x')
       else expected_exchange env (map option_step opts @ rest) (transcript x'))"
    by (simp add: a o t st_def [symmetric] fatal_def Let_def)
  show ?case
  proof (cases fatal)
    case True
    then show ?thesis unfolding l e by (simp add: fail_with_fields)
  next
    case False
    then show ?thesis unfolding l e by (simp add: Cons.IH [of x'])
  qed
qed

lemma send_files_expected:
  "expected_exchange env (map file_step fs @ rest) (transcript x) =
     (if fst (send_files env fs x)
      then (Aborted, transcript (snd (send_files env fs x)))
      else expected_exchange env rest (transcript (snd (send_files env fs x))))"
proof (induction fs arbitrary: x)
  case Nil
  then show ?case by simp
next
  case (Cons f fs)
  define line where "line = ''FILE '' @ hexencode f"
  define st where "st = status (peer env (map fst (transcript x)) line)"
  define x' where "x' = x\<lparr>transcript := transcript x @ [(line, st)]\<rparr>"
  have s: "send_file env f x = (st, x')"
    by (simp add: send_file_def transact_def Let_def line_def st_def x'_def)
  have o: "file_step f = (line, Aborting)" by (simp add: file_step_def line_def)
  have t: "transcript x' = transcript x @ [(line, st)]" by (simp add: x'_def)
  have l: "send_files env (f # fs) x =
      (if st \<noteq> 0
       then (True, fail_with (''Failed to send file path '' @ f @ '': '' @ to_error_string env st) x')
       else send_files env fs x')"
    unfolding send_files.simps s by simp
  have e: "expected_exchange env (map file_step (f # fs) @ rest) (transcript x) =
      (if st \<noteq> 0 then (Aborted, transcript x')
       else expected_exchange env (map file_step fs @ rest) (transcript x'))"
    by (simp add: o t st_def [symmetric] Let_def)
  show ?case
  proof (cases "st \<noteq> 0")
    case True
    then show ?thesis unfolding l e by (simp add: fail_with_fields)
  next
    case False
    then show ?thesis unfolding l e by (simp add: Cons.IH [of x'])
  qed
qed

lemma send_senders_expected:
  "expected_exchange env (map (sender_step info) fs @ rest) (transcript x) =
     (if fst (send_senders env info fs x)
      then (Aborted, transcript (snd (send_senders env info fs x)))
      else expected_exchange env rest (transcript (snd (send_senders env info fs x))))"
proof (induction fs arbitrary: x)
  case Nil
  then show ?case by simp
next
  case (Cons f fs)
  define line where "line = ''SENDER '' @ (if info then ''--info '' else []) @ ''--'' @ hexencode f"
  define st where "st = status (peer env (map fst (transcript x)) line)"
  define x' where "x' = x\<lparr>transcript := transcript x @ [(line, st)]\<rparr>"
  have s: "send_sender env f info x = (st, x')"
    by (simp add: send_sender_def transact_def Let_def line_def st_def x'_def)
  have o: "sender_step info f = (line, Aborting)" by (simp add: sender_step_def line_def)
  have t: "transcript x' = transcript x @ [(line, st)]" by (simp add: x'_def)
  have l: "send_senders env info (f # fs) x =
      (if st \<noteq> 0
       then (True, fail_with (''Failed to send sender '' @ f @ '': '' @ to_error_string env st) x')
       else send_senders env info fs x')"
    unfolding send_senders.simps s by simp
  have e: "expected_exchange env (map (sender_step info) (f # fs) @ rest) (transcript x) =
      (if st \<noteq> 0 then (Aborted, transcript x')
       else expected_exchange env (map (sender_step info) fs @ rest) (transcript x'))"
    by (simp add: o t st_def [symmetric] Let_def)
  show ?case
  proof (cases "st \<noteq> 0")
    case True
    then show ?thesis unfolding l e by (simp add: fail_with_fields)
  next
    case False
    then show ?thesis unfolding l e by (simp add: Cons.IH [of x'])
  qed
qed

lemma send_recipients_expected:
  "expected_exchange env (map (recipient_step info) fs @ rest) (transcript x) =
     (if fst (send_recipients env info fs x)
      then (Aborted, transcript (snd (send_recipients env info fs x)))
      else expected_exchange env rest (transcript (snd (send_recipients env info fs x))))"
proof (induction fs arbitrary: x)
  case Nil
  then show ?case by simp
next
  case (Cons f fs)
  define line where "line = ''RECIPIENT '' @ (if info then ''--info '' else []) @ ''--'' @ hexencode f"
  define st where "st = status (peer env (map fst (transcript x)) line)"
  define x' where "x' = x\<lparr>transcript := transcript x @ [(line, st)]\<rparr>"
  have s: "send_recipient env f info x = (st, x')"
    by (simp add: send_recipient_def transact_def Let_def line_def st_def x'_def)
  have o: "recipient_step info f = (line, Aborting)" by (simp add: recipient_step_def line_def)
  have t: "transcript x' = transcript x @ [(line, st)]" by (simp add: x'_def)
  have l: "send_recipients env info (f # fs) x =
      (if st \<noteq> 0
       then (True, fail_with (''Failed to send recipient '' @ f @ '': '' @ to_error_string env st) x')
       else send_recipients env info fs x')"
    unfolding send_recipients.simps s by simp
  have e: "expected_exchange env (map (recipient_step info) (f # fs) @ rest) (transcript x) =
      (if st \<noteq> 0 then (Aborted, transcript x')
       else expected_exchange env (map (recipient_step info) fs @ rest) (transcript x'))"
    by (simp add: o t st_def [symmetric] Let_def)
  show ?case
  proof (cases "st \<noteq> 0")
    case True
    then show ?thesis unfolding l e by (simp add: fail_with_fields)
  next
    case False
    then show ?thesis unfolding l e by (simp add: Cons.IH [of x'])
  qed
qed

lemma window_id_expected:
  "expected_exchange env ((option_line ''window-id'' val, Ignored) # rest) (transcript x) =
     expected_exchange env rest (transcript (snd (send_option env ''window-id'' val x)))"
  by (simp add: send_option_def transact_def option_line_def Let_def)

lemma send_command_expected:
  assumes "succeeded (out x)"
  shows "expected_exchange env [(command ins, MainCommand)] (transcript x) =
           (ending_of (out (send_command env ins x)), transcript (send_command env ins x))"
  using assms
  by (simp add: send_command_def transact_def Let_def succeeded_def ending_of_def fail_with_def)

lemma ended_in_error_ending: "ended_in_error o' \<Longrightarrow> ending_of o' = Aborted"
  by (simp add: ended_in_error_def ending_of_def)

lemma loop_failed_ending:
  assumes "loop_ok x r" "fst r"
  shows "ending_of (out (snd r)) = Aborted"
  using assms by (simp add: loop_ok_def ended_in_error_ending)

lemma converse_expected:
  assumes "succeeded (out x0)" "transcript x0 = []"
  shows "(ending_of (out (converse env ins x0)), transcript (converse env ins x0)) =
           (let st = status (peer env [] ''GETINFO pid'') in
            if st \<noteq> 0 \<or> reported_pid env \<le> 0 then (Aborted, [(''GETINFO pid'', st)])
            else if command ins = [] then (Completed, [(''GETINFO pid'', st)])
            else expected_exchange env (protocol_steps ins) [(''GETINFO pid'', st)])"
proof -
  let ?x0 = "x0\<lparr>out := (out x0)\<lparr>serverPid := -1\<rparr>\<rparr>"
  define resp where "resp = peer env [] ''GETINFO pid''"
  define x1 where "x1 = ?x0\<lparr>transcript := [(''GETINFO pid'', status resp)]\<rparr>"
  have t: "transact env ''GETINFO pid'' ?x0 = (resp, x1)"
    using assms(2) by (simp add: transact_def Let_def resp_def x1_def)
  define x2 where "x2 = x1\<lparr>out := (out x1)\<lparr>serverPid :=
                     fold (\<lambda>line pid. toLongLong env line) (payload resp) (serverPid (out x1))\<rparr>\<rparr>"
  have pid: "serverPid (out x2) = reported_pid env"
    by (simp add: x2_def x1_def reported_pid_def resp_def)
  from assms(1) have s2: "succeeded (out x2)" by (simp add: x2_def x1_def succeeded_def)
  have t2: "transcript x2 = [(''GETINFO pid'', status resp)]" by (simp add: x2_def x1_def)
  let ?goal = "\<lambda>x. (ending_of (out x), transcript x) =
           (let st = status (peer env [] ''GETINFO pid'') in
            if st \<noteq> 0 \<or> reported_pid env \<le> 0 then (Aborted, [(''GETINFO pid'', st)])
            else if command ins = [] then (Completed, [(''GETINFO pid'', st)])
            else expected_exchange env (protocol_steps ins) [(''GETINFO pid'', st)])"
  show ?thesis
  proof (cases "status resp \<noteq> 0 \<or> serverPid (out x2) \<le> 0")
    case True
    have "converse env ins x0 = fail_with (''Could not get the process-id of the Kleopatra UI server at ''
                   @ serverLocation (out x2) @ '': '' @ to_error_string env (status resp)) x2"
      unfolding converse_def t prod.case Let_def x2_def [symmetric]
      using True by (simp only: if_True)
    moreover from s2 have "\<not> canceled (out x2)" by (simp add: succeeded_def)
    ultimately show ?thesis using True t2
      by (simp add: ending_of_def fail_with_fields Let_def pid resp_def [symmetric])
  next
    case ok: False
    then have ok': "\<not> (status resp \<noteq> 0 \<or> reported_pid env \<le> 0)" by (simp add: pid)
    show ?thesis
    proof (cases "command ins = []")
      case True
      have "converse env ins x0 = x2"
        unfolding converse_def t prod.case Let_def x2_def [symmetric]
        using ok True by (simp only: if_True if_False simp_thms)
      with s2 t2 ok' True show ?thesis
        by (simp add: ending_of_def succeeded_def Let_def resp_def [symmetric])
    next
      case cmd: False
      define x3 where "x3 = (if parentWId ins \<noteq> 0
                       then snd (send_option env ''window-id''
                                   (Variant (hex_lower (parentWId ins))) x2)
                       else x2)"
      have o3: "out x3 = out x2"
        using send_option_step [of env "''window-id''" "Variant (hex_lower (parentWId ins))" x2]
        by (cases "send_option env ''window-id'' (Variant (hex_lower (parentWId ins))) x2")
           (simp add: x3_def)
      with s2 have nc3: "\<not> canceled (out x3)" by (simp add: succeeded_def)
      define r4 where "r4 = send_options env (options ins) x3"
      have l4: "loop_ok x3 r4" unfolding r4_def using nc3 by (rule send_options_ok)
      define r5 where "r5 = send_files env (filePaths ins) (snd r4)"
      define r6 where "r6 = send_senders env (areSendersInformative ins) (senders ins) (snd r5)"
      define r7 where "r7 = send_recipients env (areRecipientsInformative ins) (recipients ins) (snd r6)"
      have pre: "converse env ins x0 =
          (case send_options env (options ins) x3 of
                  (True, x4) \<Rightarrow> x4
                | (False, x4) \<Rightarrow>
                    (case send_files env (filePaths ins) x4 of
                       (True, x5) \<Rightarrow> x5
                     | (False, x5) \<Rightarrow>
                         (case send_senders env (areSendersInformative ins) (senders ins) x5 of
                            (True, x6) \<Rightarrow> x6
                          | (False, x6) \<Rightarrow>
                              (case send_recipients env (areRecipientsInformative ins)
                                      (recipients ins) x6 of
                                 (True, x7) \<Rightarrow> x7
                               | (False, x7) \<Rightarrow> send_command env ins x7))))"
        unfolding converse_def t prod.case Let_def x2_def [symmetric] x3_def [symmetric]
        using ok cmd by (simp only: if_False)
      have e4: "send_options env (options ins) x3 = (fst r4, snd r4)" by (simp add: r4_def)
      have e5: "send_files env (filePaths ins) (snd r4) = (fst r5, snd r5)" by (simp add: r5_def)
      have e6: "send_senders env (areSendersInformative ins) (senders ins) (snd r5) = (fst r6, snd r6)"
        by (simp add: r6_def)
      have e7: "send_recipients env (areRecipientsInformative ins) (recipients ins) (snd r6) = (fst r7, snd r7)"
        by (simp add: r7_def)
      have c4: "converse env ins x0 = snd r4" if "fst r4"
        using that by (simp only: pre e4 prod.case bool.case)
      have c5: "converse env ins x0 = snd r5" if "\<not> fst r4" "fst r5"
        using that by (simp only: pre e4 e5 prod.case bool.case)
      have c6: "converse env ins x0 = snd r6" if "\<not> fst r4" "\<not> fst r5" "fst r6"
        using that by (simp only: pre e4 e5 e6 prod.case bool.case)
      have c7: "converse env ins x0 = snd r7" if "\<not> fst r4" "\<not> fst r5" "\<not> fst r6" "fst r7"
        using that by (simp only: pre e4 e5 e6 e7 prod.case bool.case)
      have c8: "converse env ins x0 = send_command env ins (snd r7)"
        if "\<not> fst r4" "\<not> fst r5" "\<not> fst r6" "\<not> fst r7"
        using that by (simp only: pre e4 e5 e6 e7 prod.case bool.case)
      define R where "R = [(command ins, MainCommand)]"
      define S where "S = map (recipient_step (areRecipientsInformative ins)) (recipients ins) @ R"
      define F where "F = map (sender_step (areSendersInformative ins)) (senders ins) @ S"
      define P where "P = map file_step (filePaths ins) @ F"
      define E where "E = expected_exchange env (protocol_steps ins) (transcript x2)"
      have h3: "E = expected_exchange env (map option_step (options ins) @ P) (transcript x3)"
      proof (cases "parentWId ins \<noteq> 0")
        case True
        then have "protocol_steps ins =
            (option_line ''window-id'' (Variant (hex_lower (parentWId ins))), Ignored)
              # (map option_step (options ins) @ P)"
          by (simp add: protocol_steps_def P_def F_def S_def R_def)
        moreover from True have "x3 = snd (send_option env ''window-id''
                                   (Variant (hex_lower (parentWId ins))) x2)"
          by (simp add: x3_def)
        ultimately show ?thesis unfolding E_def by (simp only: window_id_expected)
      next
        case False
        then have "protocol_steps ins = map option_step (options ins) @ P" "x3 = x2"
          by (simp_all add: protocol_steps_def P_def F_def S_def R_def x3_def)
        then show ?thesis unfolding E_def by simp
      qed
      have h4: "E = (if fst r4 then (Aborted, transcript (snd r4))
                     else expected_exchange env P (transcript (snd r4)))"
        unfolding h3 r4_def by (rule send_options_expected)
      have h5: "expected_exchange env P (transcript (snd r4)) =
                  (if fst r5 then (Aborted, transcript (snd r5))
                   else expected_exchange env F (transcript (snd r5)))"
        unfolding P_def r5_def by (rule send_files_expected)
      have h6: "expected_exchange env F (transcript (snd r5)) =
                  (if fst r6 then (Aborted, transcript (snd r6))
                   else expected_exchange env S (transcript (snd r6)))"
        unfolding F_def r6_def by (rule send_senders_expected)
      have h7: "expected_exchange env S (transcript (snd r6)) =
                  (if fst r7 then (Aborted, transcript (snd r7))
                   else expected_exchange env R (transcript (snd r7)))"
        unfolding S_def r7_def by (rule send_recipients_expected)
      have g: "?goal x \<longleftrightarrow> (ending_of (out x), transcript x) = E" for x
        using ok' cmd by (simp add: E_def t2 Let_def resp_def [symmetric])
      show ?thesis
      proof (cases "fst r4")
        case True
        with l4 have "ending_of (out (snd r4)) = Aborted" by (simp add: loop_failed_ending)
        with True show ?thesis unfolding g by (simp add: c4 h4)
      next
        case f4: False
        with l4 o3 have o4: "out (snd r4) = out x2" by (simp add: loop_passed)
        with s2 have "\<not> canceled (out (snd r4))" by (simp add: succeeded_def)
        then have l5: "loop_ok (snd r4) r5" unfolding r5_def by (rule send_files_ok)
        show ?thesis
        proof (cases "fst r5")
          case True
          with l5 have "ending_of (out (snd r5)) = Aborted" by (simp add: loop_failed_ending)
          with True f4 show ?thesis unfolding g by (simp add: c5 h4 h5)
        next
          case f5: False
          with l5 o4 have o5: "out (snd r5) = out x2" by (simp add: loop_passed)
          with s2 have "\<not> canceled (out (snd r5))" by (simp add: succeeded_def)
          then have l6: "loop_ok (snd r5) r6" unfolding r6_def by (rule send_senders_ok)
          show ?thesis
          proof (cases "fst r6")
            case True
            with l6 have "ending_of (out (snd r6)) = Aborted" by (simp add: loop_failed_ending)
            with True f4 f5 show ?thesis unfolding g by (simp add: c6 h4 h5 h6)
          next
            case f6: False
            with l6 o5 have o6: "out (snd r6) = out x2" by (simp add: loop_passed)
            with s2 have "\<not> canceled (out (snd r6))" by (simp add: succeeded_def)
            then have l7: "loop_ok (snd r6) r7" unfolding r7_def by (rule send_recipients_ok)
            show ?thesis
            proof (cases "fst r7")
              case True
              with l7 have "ending_of (out (snd r7)) = Aborted" by (simp add: loop_failed_ending)
              with True f4 f5 f6 show ?thesis unfolding g by (simp add: c7 h4 h5 h6 h7)
            next
              case f7: False
              with l7 o6 have "out (snd r7) = out x2" by (simp add: loop_passed)
              with s2 have "succeeded (out (snd r7))" by simp
              then have "expected_exchange env R (transcript (snd r7)) =
                  (ending_of (out (send_command env ins (snd r7))),
                   transcript (send_command env ins (snd r7)))"
                unfolding R_def by (rule send_command_expected)
              with f4 f5 f6 f7 show ?thesis unfolding g by (simp add: c8 h4 h5 h6 h7)
            qed
          qed
        qed
      qed
    qed
  qed
qed

lemma connect_and_converse_expected:
  assumes "succeeded (out x0)" "transcript x0 = []" "serverLocation (out x0) = default_socket_name env"
  shows "(ending_of (out (connect_and_converse env ins x0)),
          transcript (connect_and_converse env ins x0)) = expected_run env ins"
proof (cases "connection_made env")
  case True
  then have "connect_and_converse env ins x0 = converse env ins x0"
    unfolding connection_made_iff connect_and_converse_def Let_def assms(3)
    by (simp split: if_splits)
  with True converse_expected [OF assms(1,2), of env ins] show ?thesis
    by (simp add: expected_run_def)
next
  case False
  from assms(1) have nc: "\<not> canceled (out x0)" by (simp add: succeeded_def)
  have f: "(ending_of (out (fail_with msg x0)), transcript (fail_with msg x0)) = (Aborted, [])"
    if "msg \<noteq> []" for msg
    using that nc assms(2) by (simp add: ending_of_def fail_with_fields)
  from False consider
      (name) "default_socket_name env = []"
    | (alloc) "default_socket_name env \<noteq> []" "assuan_new_status env \<noteq> 0"
    | (start) "default_socket_name env \<noteq> []" "assuan_new_status env = 0"
        "connect_status env 0 \<noteq> 0" "start_uiserver_result env \<noteq> []"
    | (connect) "default_socket_name env \<noteq> []" "assuan_new_status env = 0"
        "connect_status env 0 \<noteq> 0" "start_uiserver_result env = []"
        "retry_connect env 0 20 (connect_status env 0) \<noteq> 0"
    unfolding connection_made_iff by (cases "connect_status env 0 = 0") auto
  then have "(ending_of (out (connect_and_converse env ins x0)),
          transcript (connect_and_converse env ins x0)) = (Aborted, [])"
  proof cases
    case name
    then show ?thesis by (simp add: connect_and_converse_def assms(3) f)
  next
    case alloc
    then show ?thesis by (simp add: connect_and_converse_def assms(3) f)
  next
    case start
    then show ?thesis by (simp add: connect_and_converse_def assms(3) f)
  next
    case connect
    then show ?thesis
      by (simp add: connect_and_converse_def assms(3) f del: retry_connect.simps)
  qed
  with False show ?thesis by (simp add: expected_run_def)
qed

lemma run_expected:
  "expected_run env (inputs c) = (ending_of (out (snd (run env c))), transcript (snd (run env c)))"
proof -
  let ?x0 = "\<lparr>out = new_Outputs\<lparr>serverLocation := default_socket_name env\<rparr>,
        transcript = [], inquire_sent = []\<rparr>"
  have "succeeded (out ?x0)" by (simp add: succeeded_def new_Outputs_def)
  moreover have "transcript ?x0 = []" by simp
  moreover have "serverLocation (out ?x0) = default_socket_name env" by simp
  ultimately have "(ending_of (out (connect_and_converse env (inputs c) ?x0)),
          transcript (connect_and_converse env (inputs c) ?x0)) = expected_run env (inputs c)"
    by (rule connect_and_converse_expected)
  then show ?thesis by (simp only: run_exchange)
qed

lemma step_not_main:
  "snd (option_step entry) \<noteq> MainCommand" "snd (file_step f) \<noteq> MainCommand"
  "snd (sender_step info s) \<noteq> MainCommand" "snd (recipient_step info r) \<noteq> MainCommand"
  by (simp_all add: option_step_def file_step_def sender_step_def recipient_step_def)

lemma protocol_steps_main_last:
  "\<exists>pre. protocol_steps ins = pre @ [(command ins, MainCommand)]
         \<and> (\<forall>step \<in> set pre. snd step \<noteq> MainCommand)"
proof -
  let ?pre = "(if parentWId ins \<noteq> 0
      then [(option_line ''window-id'' (Variant (hex_lower (parentWId ins))), Ignored)]
      else [])
     @ map option_step (options ins)
     @ map file_step (filePaths ins)
     @ map (sender_step (areSendersInformative ins)) (senders ins)
     @ map (recipient_step (areRecipientsInformative ins)) (recipients ins)"
  have "protocol_steps ins = ?pre @ [(command ins, MainCommand)]"
    by (simp add: protocol_steps_def)
  moreover have "\<forall>step \<in> set ?pre. snd step \<noteq> MainCommand"
    by (auto simp: step_not_main)
  ultimately show ?thesis by blast
qed

lemma main_step_is_last:
  assumes "protocol_steps ins = before @ (line, sev) # after"
  shows "sev = MainCommand \<longleftrightarrow> after = []"
proof -
  from protocol_steps_main_last [of ins] obtain pre
    where p: "protocol_steps ins = pre @ [(command ins, MainCommand)]"
      and n: "\<forall>step \<in> set pre. snd step \<noteq> MainCommand" by blast
  show ?thesis
  proof (cases after rule: rev_cases)
    case Nil
    with assms p have "before @ [(line, sev)] = pre @ [(command ins, MainCommand)]" by simp
    then have "sev = MainCommand" by simp
    with Nil show ?thesis by simp
  next
    case (snoc rest z)
    with assms p have "(before @ (line, sev) # rest) @ [z] = pre @ [(command ins, MainCommand)]"
      by simp
    then have "before @ (line, sev) # rest = pre" by (simp only: append1_eq_conv)
    then have "(line, sev) \<in> set pre" by auto
    with n have "sev \<noteq> MainCommand" by auto
    with snoc show ?thesis by simp
  qed
qed

lemma ending_of_cases:
  "ending_of o' = Completed \<longleftrightarrow> succeeded o'"
  "ending_of o' = Aborted \<longleftrightarrow> ended_in_error o'"
  "ending_of o' = Cancelled \<longleftrightarrow> canceled o'"
  by (simp_all add: ending_of_def succeeded_def ended_in_error_def)

lemma expected_step:
  assumes "expected_exchange env before start = (Completed, reached)"
  shows "expected_exchange env (before @ (line, sev) # after) start =
           (let st = status (peer env (map fst reached) line)
            in if st = 0 \<or> sev = Ignored
               then expected_exchange env after (reached @ [(line, st)])
               else if sev = MainCommand \<and> gpg_err_code st = GPG_ERR_CANCELED
               then (Cancelled, reached @ [(line, st)])
               else (Aborted, reached @ [(line, st)]))"
  by (simp add: expected_exchange_append assms)

lemma expected_goes_on:
  assumes "after \<noteq> []"
  shows "\<exists>more. more \<noteq> [] \<and>
           snd (expected_exchange env after (reached @ [(line, st)])) = reached @ (line, st) # more"
  using expected_exchange_extends [of env after "reached @ [(line, st)]"] assms by auto

text \<open>
  C5, amended.  For every client Command exchange, \<open>run\<close> does what the specification's
  protocol says (\<open>expected_run\<close>: the same lines in the same order, the same ending), and
  its result is exactly one of success, canceled, or error-with-string.  In particular:
  a peer response to the main command with the ``canceled'' status code sets the
  cancellation flag and leaves the error string empty (so \<open>error()\<close> reports false), and
  the flag is set in no other way; every other failure that ends the exchange (no socket
  name or no connection; a failed \<open>GETINFO pid\<close> or a process id that is not positive; a
  refused critical option, file, sender or recipient line, whatever status code the peer
  gave; the main command refused with another code) records a non-empty error string
  with the cancellation flag false; the step that failed is the last line sent, so a
  failure, cancellation included, skips all remaining steps; and a refused non-critical
  option (the window id too), whatever its status code, is ignored: the next line is
  sent.  A step of the exchange is given by its place in the protocol: the steps
  \<open>before\<close> it all passed and left \<open>reached\<close> as the lines sent.
\<close>

theorem run_outcome:
  assumes "run env c = (c', x)"
  shows "outputs c' = out x
       \<and> ((succeeded (out x) \<and> \<not> ended_canceled (out x) \<and> \<not> ended_in_error (out x))
          \<or> (\<not> succeeded (out x) \<and> ended_canceled (out x) \<and> \<not> ended_in_error (out x))
          \<or> (\<not> succeeded (out x) \<and> \<not> ended_canceled (out x) \<and> ended_in_error (out x)))
       \<and> expected_run env (inputs c) = (ending_of (outputs c'), transcript x)
       \<and> (wasCanceled c' \<longrightarrow>
             \<not> error_reported c' \<and> transcript x \<noteq> []
             \<and> fst (last (transcript x)) = command (inputs c)
             \<and> snd (last (transcript x)) \<noteq> 0
             \<and> gpg_err_code (snd (last (transcript x))) = GPG_ERR_CANCELED)
       \<and> (\<not> succeeded (out x) \<longrightarrow> stopped_at_failure x)
       \<and> (\<not> connection_made env \<longrightarrow> transcript x = [] \<and> ended_in_error (out x))
       \<and> (connection_made env
            \<and> (status (peer env [] ''GETINFO pid'') \<noteq> 0 \<or> reported_pid env \<le> 0) \<longrightarrow>
             transcript x = [(''GETINFO pid'', status (peer env [] ''GETINFO pid''))]
             \<and> ended_in_error (out x))
       \<and> (connection_made env \<and> status (peer env [] ''GETINFO pid'') = 0
            \<and> 0 < reported_pid env \<and> command (inputs c) \<noteq> []
            \<and> protocol_steps (inputs c) = before @ (line, sev) # after
            \<and> expected_exchange env before [(''GETINFO pid'', 0)] = (Completed, reached) \<longrightarrow>
             (let st = status (peer env (map fst reached) line) in
                (st \<noteq> 0 \<and> sev = Aborting \<longrightarrow>
                   transcript x = reached @ [(line, st)] \<and> ended_in_error (out x))
              \<and> (st \<noteq> 0 \<and> sev = MainCommand \<and> gpg_err_code st = GPG_ERR_CANCELED \<longrightarrow>
                   transcript x = reached @ [(line, st)] \<and> ended_canceled (out x))
              \<and> (st \<noteq> 0 \<and> sev = MainCommand \<and> gpg_err_code st \<noteq> GPG_ERR_CANCELED \<longrightarrow>
                   transcript x = reached @ [(line, st)] \<and> ended_in_error (out x))
              \<and> (st \<noteq> 0 \<and> sev = Ignored \<longrightarrow>
                   (\<exists>more. more \<noteq> [] \<and> transcript x = reached @ (line, st) # more))
              \<and> (st = 0 \<and> sev = MainCommand \<longrightarrow>
                   transcript x = reached @ [(line, st)] \<and> succeeded (out x))
              \<and> (st = 0 \<and> sev \<noteq> MainCommand \<longrightarrow>
                   (\<exists>more. more \<noteq> [] \<and> transcript x = reached @ (line, st) # more))))"
proof -
  from assms have x: "x = snd (run env c)" and c': "c' = fst (run env c)" by simp_all
  have o: "outputs c' = out x" unfolding x c' by (rule run_outputs)
  have s: "settled (inputs c) x" unfolding x by (rule run_settled)
  have e: "expected_run env (inputs c) = (ending_of (out x), transcript x)"
    unfolding x by (rule run_expected)
  from s have tri: "(succeeded (out x) \<and> \<not> ended_canceled (out x) \<and> \<not> ended_in_error (out x))
          \<or> (\<not> succeeded (out x) \<and> ended_canceled (out x) \<and> \<not> ended_in_error (out x))
          \<or> (\<not> succeeded (out x) \<and> \<not> ended_canceled (out x) \<and> ended_in_error (out x))"
    unfolding settled_def by blast
  from s have stop: "\<not> succeeded (out x) \<longrightarrow> stopped_at_failure x"
    unfolding settled_def by blast
  from s o have can: "wasCanceled c' \<longrightarrow>
             \<not> error_reported c' \<and> transcript x \<noteq> []
             \<and> fst (last (transcript x)) = command (inputs c)
             \<and> snd (last (transcript x)) \<noteq> 0
             \<and> gpg_err_code (snd (last (transcript x))) = GPG_ERR_CANCELED"
    unfolding settled_def wasCanceled_def error_reported_def succeeded_def ended_canceled_def
      ended_in_error_def by auto
  have aborted: "transcript x = sent \<and> ended_in_error (out x)"
    if "expected_run env (inputs c) = (Aborted, sent)" for sent
    using that e by (simp add: ending_of_cases)
  have cancelled: "transcript x = sent \<and> ended_canceled (out x)"
    if "expected_run env (inputs c) = (Cancelled, sent)" for sent
    using that e tri by (auto simp: ending_of_cases ended_canceled_def succeeded_def ended_in_error_def)
  have completed: "transcript x = sent \<and> succeeded (out x)"
    if "expected_run env (inputs c) = (Completed, sent)" for sent
    using that e by (simp add: ending_of_cases)
  have unconnected: "\<not> connection_made env \<longrightarrow> transcript x = [] \<and> ended_in_error (out x)"
    by (intro impI aborted) (simp add: expected_run_def)
  have pid: "connection_made env
            \<and> (status (peer env [] ''GETINFO pid'') \<noteq> 0 \<or> reported_pid env \<le> 0) \<longrightarrow>
             transcript x = [(''GETINFO pid'', status (peer env [] ''GETINFO pid''))]
             \<and> ended_in_error (out x)"
    by (intro impI aborted) (auto simp: expected_run_def Let_def)
  have step: "connection_made env \<and> status (peer env [] ''GETINFO pid'') = 0
            \<and> 0 < reported_pid env \<and> command (inputs c) \<noteq> []
            \<and> protocol_steps (inputs c) = before @ (line, sev) # after
            \<and> expected_exchange env before [(''GETINFO pid'', 0)] = (Completed, reached) \<longrightarrow>
             (let st = status (peer env (map fst reached) line) in
                (st \<noteq> 0 \<and> sev = Aborting \<longrightarrow>
                   transcript x = reached @ [(line, st)] \<and> ended_in_error (out x))
              \<and> (st \<noteq> 0 \<and> sev = MainCommand \<and> gpg_err_code st = GPG_ERR_CANCELED \<longrightarrow>
                   transcript x = reached @ [(line, st)] \<and> ended_canceled (out x))
              \<and> (st \<noteq> 0 \<and> sev = MainCommand \<and> gpg_err_code st \<noteq> GPG_ERR_CANCELED \<longrightarrow>
                   transcript x = reached @ [(line, st)] \<and> ended_in_error (out x))
              \<and> (st \<noteq> 0 \<and> sev = Ignored \<longrightarrow>
                   (\<exists>more. more \<noteq> [] \<and> transcript x = reached @ (line, st) # more))
              \<and> (st = 0 \<and> sev = MainCommand \<longrightarrow>
                   transcript x = reached @ [(line, st)] \<and> succeeded (out x))
              \<and> (st = 0 \<and> sev \<noteq> MainCommand \<longrightarrow>
                   (\<exists>more. more \<noteq> [] \<and> transcript x = reached @ (line, st) # more)))"
  proof (intro impI)
    assume h: "connection_made env \<and> status (peer env [] ''GETINFO pid'') = 0
            \<and> 0 < reported_pid env \<and> command (inputs c) \<noteq> []
            \<and> protocol_steps (inputs c) = before @ (line, sev) # after
            \<and> expected_exchange env before [(''GETINFO pid'', 0)] = (Completed, reached)"
    define st where "st = status (peer env (map fst reached) line)"
    from h have steps: "protocol_steps (inputs c) = before @ (line, sev) # after"
      and reached: "expected_exchange env before [(''GETINFO pid'', 0)] = (Completed, reached)"
      by simp_all
    from h have "expected_run env (inputs c) =
        expected_exchange env (before @ (line, sev) # after) [(''GETINFO pid'', 0)]"
      by (simp add: expected_run_def Let_def)
    then have r: "expected_run env (inputs c) =
        (if st = 0 \<or> sev = Ignored
         then expected_exchange env after (reached @ [(line, st)])
         else if sev = MainCommand \<and> gpg_err_code st = GPG_ERR_CANCELED
         then (Cancelled, reached @ [(line, st)])
         else (Aborted, reached @ [(line, st)]))"
      by (simp only: expected_step [OF reached] Let_def st_def)
    note last = main_step_is_last [OF steps]
    have goes_on: "\<exists>more. more \<noteq> [] \<and> transcript x = reached @ (line, st) # more"
      if "st = 0 \<or> sev = Ignored" "sev \<noteq> MainCommand"
    proof -
      from that(2) last have "after \<noteq> []" by simp
      from that(1) r e
      have "expected_exchange env after (reached @ [(line, st)]) =
          (ending_of (out x), transcript x)"
        by simp
      then have "snd (expected_exchange env after (reached @ [(line, st)])) = transcript x"
        by simp
      with expected_goes_on [OF \<open>after \<noteq> []\<close>, of env reached line st]
      show ?thesis by simp
    qed
    have 1: "st \<noteq> 0 \<and> sev = Aborting \<longrightarrow>
        transcript x = reached @ [(line, st)] \<and> ended_in_error (out x)"
      by (intro impI aborted) (simp add: r)
    have 2: "st \<noteq> 0 \<and> sev = MainCommand \<and> gpg_err_code st = GPG_ERR_CANCELED \<longrightarrow>
        transcript x = reached @ [(line, st)] \<and> ended_canceled (out x)"
      by (intro impI cancelled) (simp add: r)
    have 3: "st \<noteq> 0 \<and> sev = MainCommand \<and> gpg_err_code st \<noteq> GPG_ERR_CANCELED \<longrightarrow>
        transcript x = reached @ [(line, st)] \<and> ended_in_error (out x)"
      by (intro impI aborted) (simp add: r)
    have 4: "st \<noteq> 0 \<and> sev = Ignored \<longrightarrow>
        (\<exists>more. more \<noteq> [] \<and> transcript x = reached @ (line, st) # more)"
      by (intro impI goes_on) simp_all
    have 5: "st = 0 \<and> sev = MainCommand \<longrightarrow>
        transcript x = reached @ [(line, st)] \<and> succeeded (out x)"
    proof (intro impI completed)
      assume a: "st = 0 \<and> sev = MainCommand"
      with last have "after = []" by simp
      with a show "expected_run env (inputs c) = (Completed, reached @ [(line, st)])"
        by (simp add: r)
    qed
    have 6: "st = 0 \<and> sev \<noteq> MainCommand \<longrightarrow>
        (\<exists>more. more \<noteq> [] \<and> transcript x = reached @ (line, st) # more)"
      by (intro impI goes_on) simp_all
    from 1 2 3 4 5 6 show "let st = status (peer env (map fst reached) line) in
                (st \<noteq> 0 \<and> sev = Aborting \<longrightarrow>
                   transcript x = reached @ [(line, st)] \<and> ended_in_error (out x))
              \<and> (st \<noteq> 0 \<and> sev = MainCommand \<and> gpg_err_code st = GPG_ERR_CANCELED \<longrightarrow>
                   transcript x = reached @ [(line, st)] \<and> ended_canceled (out x))
              \<and> (st \<noteq> 0 \<and> sev = MainCommand \<and> gpg_err_code st \<noteq> GPG_ERR_CANCELED \<longrightarrow>
                   transcript x = reached @ [(line, st)] \<and> ended_in_error (out x))
              \<and> (st \<noteq> 0 \<and> sev = Ignored \<longrightarrow>
                   (\<exists>more. more \<noteq> [] \<and> transcript x = reached @ (line, st) # more))
              \<and> (st = 0 \<and> sev = MainCommand \<longrightarrow>
                   transcript x = reached @ [(line, st)] \<and> succeeded (out x))
              \<and> (st = 0 \<and> sev \<noteq> MainCommand \<longrightarrow>
                   (\<exists>more. more \<noteq> [] \<and> transcript x = reached @ (line, st) # more))"
      unfolding Let_def st_def [symmetric] by (intro conjI)
  qed
  from e o have e': "expected_run env (inputs c) = (ending_of (outputs c'), transcript x)"
    by simp
  from o tri e' can stop unconnected pid step show ?thesis by (intro conjI)
qed

text \<open>
  C5, as stated, fails.  A peer that answers a \<open>FILE\<close> line with the canceled status
  ends the exchange with an error string and the cancellation flag false; a peer that
  answers a non-critical \<open>OPTION\<close> line with it is ignored, and the exchange goes on to
  the main command and succeeds.
\<close>

theorem run_outcome_counterexample:
  "gpg_err_code 0x05000063 = GPG_ERR_CANCELED
   \<and> transcript (snd (run sample_env (command_with [] [''a b''] ''DECRYPT''))) =
       [(''GETINFO pid'', 0), (''FILE a+b'', 0x05000063)]
   \<and> \<not> wasCanceled (fst (run sample_env (command_with [] [''a b''] ''DECRYPT'')))
   \<and> errorString (outputs (fst (run sample_env (command_with [] [''a b''] ''DECRYPT'')))) =
       ''Failed to send file path a b: Operation cancelled''
   \<and> transcript (snd (run sample_env (command_with [(''foo'', plain_option)] [] ''DECRYPT''))) =
       [(''GETINFO pid'', 0), (''OPTION foo'', 0x05000063), (''DECRYPT'', 0)]
   \<and> \<not> wasCanceled (fst (run sample_env (command_with [(''foo'', plain_option)] [] ''DECRYPT'')))
   \<and> \<not> error_reported (fst (run sample_env (command_with [(''foo'', plain_option)] [] ''DECRYPT'')))"
  by (simp add: sample_status_canceled canceled_file_run canceled_option_run wasCanceled_def
      error_reported_def)

lemma sample_connection:
  "connection_made sample_env" "status (peer sample_env [] ''GETINFO pid'') = 0"
  "reported_pid sample_env = 4711"
  "expected_exchange sample_env [] [(''GETINFO pid'', 0)] = (Completed, [(''GETINFO pid'', 0)])"
  by (simp_all add: connection_made_def reported_pid_def sample_env_def canceling_peer_def)

lemma sample_steps:
  "protocol_steps (inputs (command_with [] [] ''CANCEL_ME'')) =
     [] @ (''CANCEL_ME'', MainCommand) # []"
  "protocol_steps (inputs (command_with [] [''a b''] ''DECRYPT'')) =
     [] @ (''FILE a+b'', Aborting) # [(''DECRYPT'', MainCommand)]"
  "protocol_steps (inputs (command_with [(''foo'', plain_option)] [] ''DECRYPT'')) =
     [] @ (''OPTION foo'', Ignored) # [(''DECRYPT'', MainCommand)]"
  by (simp_all add: protocol_steps_def command_with_def option_step_def option_line_def
      file_step_def plain_option_def hexencode_char_def shell_special_def byte_val_def hex_def)

lemma sample_refusals:
  "status (peer sample_env [''GETINFO pid''] ''CANCEL_ME'') = 0x05000063"
  "status (peer sample_env [''GETINFO pid''] ''FILE a+b'') = 0x05000063"
  "status (peer sample_env [''GETINFO pid''] ''OPTION foo'') = 0x05000063"
  "(0x05000063 :: gpg_error) \<noteq> 0"
  by (simp_all add: sample_env_def canceling_peer_def)

lemma sample_commands:
  "command (inputs (command_with opts paths ''CANCEL_ME'')) \<noteq> []"
  "command (inputs (command_with opts paths ''DECRYPT'')) \<noteq> []"
  by (simp_all add: command_with_def)

text \<open>
  The theorem at three exchanges with the peer that answers \<open>CANCEL_ME\<close>, every \<open>FILE\<close>
  line and every \<open>OPTION\<close> line with the canceled status: the main command canceled
  (the flag is set, no error string); a file line refused (error string, nothing sent
  after it); a non-critical option refused (the exchange goes on and completes).
\<close>

theorem run_outcome_witness:
  "connection_made sample_env \<and> status (peer sample_env [] ''GETINFO pid'') = 0
   \<and> 0 < reported_pid sample_env
   \<and> expected_exchange sample_env [] [(''GETINFO pid'', 0)] =
       (Completed, [(''GETINFO pid'', 0)])
   \<and> protocol_steps (inputs (command_with [] [] ''CANCEL_ME'')) =
       [] @ (''CANCEL_ME'', MainCommand) # []
   \<and> gpg_err_code 0x05000063 = GPG_ERR_CANCELED
   \<and> transcript (snd (run sample_env (command_with [] [] ''CANCEL_ME''))) =
       [(''GETINFO pid'', 0), (''CANCEL_ME'', 0x05000063)]
   \<and> ended_canceled (out (snd (run sample_env (command_with [] [] ''CANCEL_ME''))))
   \<and> wasCanceled (fst (run sample_env (command_with [] [] ''CANCEL_ME'')))
   \<and> \<not> error_reported (fst (run sample_env (command_with [] [] ''CANCEL_ME'')))
   \<and> protocol_steps (inputs (command_with [] [''a b''] ''DECRYPT'')) =
       [] @ (''FILE a+b'', Aborting) # [(''DECRYPT'', MainCommand)]
   \<and> transcript (snd (run sample_env (command_with [] [''a b''] ''DECRYPT''))) =
       [(''GETINFO pid'', 0), (''FILE a+b'', 0x05000063)]
   \<and> ended_in_error (out (snd (run sample_env (command_with [] [''a b''] ''DECRYPT''))))
   \<and> protocol_steps (inputs (command_with [(''foo'', plain_option)] [] ''DECRYPT'')) =
       [] @ (''OPTION foo'', Ignored) # [(''DECRYPT'', MainCommand)]
   \<and> (\<exists>more. more \<noteq> [] \<and>
         transcript (snd (run sample_env (command_with [(''foo'', plain_option)] [] ''DECRYPT''))) =
           [(''GETINFO pid'', 0)] @ (''OPTION foo'', 0x05000063) # more)
   \<and> expected_run sample_env (inputs (command_with [(''foo'', plain_option)] [] ''DECRYPT'')) =
       (Completed, [(''GETINFO pid'', 0), (''OPTION foo'', 0x05000063), (''DECRYPT'', 0)])"
proof -
  let ?cancel = "command_with [] [] ''CANCEL_ME''"
  let ?file = "command_with [] [''a b''] ''DECRYPT''"
  let ?option = "command_with [(''foo'', plain_option)] [] ''DECRYPT''"
  have p: "run sample_env c = (fst (run sample_env c), snd (run sample_env c))" for c by simp
  have pos: "0 < reported_pid sample_env" by (simp add: sample_connection)
  note given = sample_connection(1,2) pos sample_connection(4)
  from run_outcome [OF p [of ?cancel], where before = "[]" and line = "''CANCEL_ME''"
      and sev = MainCommand and after = "[]" and reached = "[(''GETINFO pid'', 0)]"]
    given sample_commands(1) [of "[]" "[]"] sample_steps(1) sample_status_canceled
  have a: "transcript (snd (run sample_env ?cancel)) =
       [(''GETINFO pid'', 0), (''CANCEL_ME'', 0x05000063)]
     \<and> ended_canceled (out (snd (run sample_env ?cancel)))"
    by (simp add: sample_refusals Let_def)
  then have w: "wasCanceled (fst (run sample_env ?cancel))"
    using run_outcome [OF p [of ?cancel]] by (simp add: wasCanceled_def ended_canceled_def)
  with run_outcome [OF p [of ?cancel]]
  have e: "\<not> error_reported (fst (run sample_env ?cancel))" by blast
  from run_outcome [OF p [of ?file], where before = "[]" and line = "''FILE a+b''"
      and sev = Aborting and after = "[(''DECRYPT'', MainCommand)]"
      and reached = "[(''GETINFO pid'', 0)]"]
    given sample_commands(2) [of "[]" "[''a b'']"] sample_steps(2)
  have b: "transcript (snd (run sample_env ?file)) =
       [(''GETINFO pid'', 0), (''FILE a+b'', 0x05000063)]
     \<and> ended_in_error (out (snd (run sample_env ?file)))"
    by (simp add: sample_refusals Let_def)
  from run_outcome [OF p [of ?option], where before = "[]" and line = "''OPTION foo''"
      and sev = Ignored and after = "[(''DECRYPT'', MainCommand)]"
      and reached = "[(''GETINFO pid'', 0)]"]
    given sample_commands(2) [of "[(''foo'', plain_option)]" "[]"] sample_steps(3)
  have c: "\<exists>more. more \<noteq> [] \<and> transcript (snd (run sample_env ?option)) =
           [(''GETINFO pid'', 0)] @ (''OPTION foo'', 0x05000063) # more"
    by (simp add: sample_refusals Let_def)
  from run_outcome [OF p [of ?option]]
  have d: "expected_run sample_env (inputs ?option) =
       (Completed, [(''GETINFO pid'', 0), (''OPTION foo'', 0x05000063), (''DECRYPT'', 0)])"
    by (simp add: canceled_option_run ending_of_def)
  from given sample_steps sample_status_canceled a w e b c d show ?thesis by (intro conjI) blast+
qed
end
